theory Spec2Isabelle
  imports Main
begin

section \<open>Utilities: filename sanitising\<close>

text \<open>
  \<^verbatim>\<open>SanitizeFilename\<close> (package utilities) replaces every match of the regular expression
  \<^verbatim>\<open>[\x5C\x2F\x3F\x25\x2A\x3A\x7C\x22\x3E\x3C\x20]\<close> by \<^verbatim>\<open>_\<close>. The class holds eleven ASCII
  characters; every byte of a multi-byte UTF-8 sequence is at least 0x80, so the
  replacement acts byte by byte on the string.
\<close>

definition reserved_chars :: "char list" where
  "reserved_chars =
     [CHR 0x5C, CHR 0x2F, CHR 0x3F, CHR 0x25, CHR 0x2A, CHR 0x3A,
      CHR 0x7C, CHR 0x22, CHR 0x3E, CHR 0x3C, CHR 0x20]"

definition SanitizeFilename :: "string \<Rightarrow> string" where
  "SanitizeFilename filename =
     map (\<lambda>c. if c \<in> set reserved_chars then CHR ''_'' else c) filename"

section \<open>HTTP basic authentication\<close>

record BasicAuthen =
  Username :: string
  Password :: string

text \<open>
  The body of the \<^verbatim>\<open>for _, v := range authenList\<close> loop of \<^verbatim>\<open>authen\<close>. The MD5 hex
  digest (\<^verbatim>\<open>utilities.StringToMD5String\<close>) is a parameter.
\<close>

fun authen_range :: "(string \<Rightarrow> string) \<Rightarrow> BasicAuthen list \<Rightarrow> string \<Rightarrow> string \<Rightarrow> bool" where
  "authen_range md5 [] username password = False"
| "authen_range md5 (v # vs) username password =
     (if Username v = username then
        (if Password v = md5 password then True
         else authen_range md5 vs username password)
      else authen_range md5 vs username password)"

definition authen :: "(string \<Rightarrow> string) \<Rightarrow> BasicAuthen list \<Rightarrow> string \<Rightarrow> string \<Rightarrow> bool" where
  "authen md5 authenList username password =
     (if length authenList = 0 then True
      else authen_range md5 authenList username password)"

text \<open>
  A request carries the result of \<^verbatim>\<open>r.BasicAuth()\<close>: the credentials when the header is
  present and well formed. The response headers are a map. A handler either hands the
  request on to the next handler (with the headers set so far) or answers with
  \<^verbatim>\<open>http.Error\<close>.
\<close>

record request =
  BasicAuth :: "(string \<times> string) option"

type_synonym header = "string \<rightharpoonup> string"

datatype 'a handled = Forward 'a | HttpError string nat

text \<open>
  \<^verbatim>\<open>ValidateMiddleware\<close> reads the configured list once, when the middleware is built
  (\<open>authenList\<close>); \<^verbatim>\<open>authen\<close> reads the configuration again on every request
  (\<open>current\<close>).
\<close>

definition ValidateMiddleware ::
  "(string \<Rightarrow> string) \<Rightarrow> BasicAuthen list \<Rightarrow> (header \<Rightarrow> 'q request_scheme \<Rightarrow> 'a) \<Rightarrow>
   BasicAuthen list \<Rightarrow> header \<Rightarrow> 'q request_scheme \<Rightarrow> 'a handled" where
  "ValidateMiddleware md5 authenList next =
     (if length authenList = 0 then (\<lambda>current w r. Forward (next w r))
      else (\<lambda>current w r.
        let w' = w(''WWW-Authenticate'' \<mapsto> ''Basic realm=\"Restricted\"'') in
        case BasicAuth r of
          Some (username, password) \<Rightarrow>
            if \<not> authen md5 current username password then HttpError ''Unauthorized.'' 401
            else Forward (next w' r)
        | None \<Rightarrow> HttpError ''Unauthorized.'' 401))"

section \<open>The rolling log writer\<close>

subsection \<open>Paths (package path/filepath on Unix)\<close>

text \<open>
  The Logger builds its names with \<^verbatim>\<open>filepath.Dir\<close>, \<^verbatim>\<open>Base\<close>, \<^verbatim>\<open>Ext\<close> and \<^verbatim>\<open>Join\<close>. They are
  library functions on strings; the definitions below follow their Unix versions, where
  the separator is \<^verbatim>\<open>/\<close> and there is no volume name.
\<close>

definition IsPathSeparator :: "char \<Rightarrow> bool" where
  "IsPathSeparator c = (c = CHR ''/'')"

text \<open>The elements of a path between its separators, and the path of a list of elements.\<close>

fun split_sep :: "string \<Rightarrow> string list" where
  "split_sep [] = [] # []"
| "split_sep (c # cs) =
     (if IsPathSeparator c then [] # split_sep cs
      else (case split_sep cs of [] \<Rightarrow> [c] # [] | e # es \<Rightarrow> (c # e) # es))"

fun join_sep :: "string list \<Rightarrow> string" where
  "join_sep [] = []"
| "join_sep [e] = e"
| "join_sep (e # es) = e @ CHR ''/'' # join_sep es"

text \<open>
  \<^verbatim>\<open>filepath.Clean\<close> reads the path element by element and keeps the elements of the
  result (here in reverse order): an empty element and \<^verbatim>\<open>.\<close> are dropped; \<^verbatim>\<open>..\<close> removes
  the last real element if there is one, is dropped at the root, and is kept at the
  start of a relative path; any other element is kept. The result is the kept elements
  joined by single separators, after \<^verbatim>\<open>/\<close> for a rooted path, and \<^verbatim>\<open>.\<close> if nothing is
  left of a relative one.
\<close>

definition clean_step :: "bool \<Rightarrow> string list \<Rightarrow> string \<Rightarrow> string list" where
  "clean_step rooted out e =
     (if e = [] \<or> e = ''.'' then out
      else if e = ''..'' then
        (if out \<noteq> [] \<and> (rooted \<or> hd out \<noteq> ''..'') then tl out
         else if \<not> rooted then ''..'' # out
         else out)
      else e # out)"

definition Clean :: "string \<Rightarrow> string" where
  "Clean path =
     (if path = [] then ''.''
      else
        let rooted = IsPathSeparator (hd path);
            out = foldl (clean_step rooted) [] (split_sep path)
        in if rooted then CHR ''/'' # join_sep (rev out)
           else if out = [] then ''.''
           else join_sep (rev out))"

text \<open>\<^verbatim>\<open>filepath.Dir\<close>: \<^verbatim>\<open>Clean\<close> of the path up to and including its last separator.\<close>

definition Dir :: "string \<Rightarrow> string" where
  "Dir path = Clean (rev (dropWhile (\<lambda>c. \<not> IsPathSeparator c) (rev path)))"

text \<open>
  \<^verbatim>\<open>filepath.Base\<close>: the last element, after trailing separators are removed; \<^verbatim>\<open>.\<close> for
  the empty path and \<^verbatim>\<open>/\<close> for a path of separators only.
\<close>

definition Base :: "string \<Rightarrow> string" where
  "Base path =
     (if path = [] then ''.''
      else
        let stripped = rev (dropWhile IsPathSeparator (rev path));
            element = rev (takeWhile (\<lambda>c. \<not> IsPathSeparator c) (rev stripped))
        in if element = [] then ''/'' else element)"

text \<open>
  \<^verbatim>\<open>filepath.Ext\<close>: scanning from the end, the suffix that starts at the first dot met
  before any separator; empty if there is none.
\<close>

fun ext_scan :: "string \<Rightarrow> string \<Rightarrow> string" where
  "ext_scan [] acc = []"
| "ext_scan (c # cs) acc =
     (if IsPathSeparator c then []
      else if c = CHR ''.'' then c # acc
      else ext_scan cs (c # acc))"

definition Ext :: "string \<Rightarrow> string" where
  "Ext path = ext_scan (rev path) []"

text \<open>\<^verbatim>\<open>filepath.Join(a, b)\<close>: empty arguments are skipped, the rest is joined and cleaned.\<close>

definition Join2 :: "string \<Rightarrow> string \<Rightarrow> string" where
  "Join2 a b =
     (if a \<noteq> [] then Clean (a @ CHR ''/'' # b)
      else if b \<noteq> [] then Clean b
      else [])"


subsection \<open>Time (package time)\<close>

text \<open>
  An instant is the number of nanoseconds since 1970-01-01T00:00:00Z. \<^verbatim>\<open>Add\<close> is
  addition and \<^verbatim>\<open>Before\<close> is \<open><\<close>. A location is its offset east of UTC in seconds
  (0 for \<^verbatim>\<open>time.UTC\<close>; the offset of \<^verbatim>\<open>time.Local\<close> is taken as fixed).
\<close>

definition ns_per_second :: int where "ns_per_second = 1000000000"
definition ns_per_minute :: int where "ns_per_minute = 60 * ns_per_second"
definition ns_per_day :: int where "ns_per_day = 86400 * ns_per_second"

definition wrap64 :: "int \<Rightarrow> int" where
  "wrap64 x = (x + 2 ^ 63) mod 2 ^ 64 - 2 ^ 63"

definition abs_seconds :: "int \<Rightarrow> int \<Rightarrow> int" where
  "abs_seconds off t = t div ns_per_second + off"

text \<open>The civil date of a day number (days since 1970-01-01) in the proleptic Gregorian calendar.\<close>

definition civil :: "int \<Rightarrow> int \<times> int \<times> int" where
  "civil z0 =
     (let z = z0 + 719468;
          era = z div 146097;
          doe = z - era * 146097;
          yoe = (doe - doe div 1460 + doe div 36524 - doe div 146096) div 365;
          y = yoe + era * 400;
          doy = doe - (365 * yoe + yoe div 4 - yoe div 100);
          mp = (5 * doy + 2) div 153;
          d = doy - (153 * mp + 2) div 5 + 1;
          m = (if mp < 10 then mp + 3 else mp - 9)
      in (if m \<le> 2 then y + 1 else y, m, d))"

definition Year :: "int \<Rightarrow> int \<Rightarrow> int" where
  "Year off t = fst (civil (abs_seconds off t div 86400))"

definition Month :: "int \<Rightarrow> int \<Rightarrow> int" where
  "Month off t = fst (snd (civil (abs_seconds off t div 86400)))"

definition Day :: "int \<Rightarrow> int \<Rightarrow> int" where
  "Day off t = snd (snd (civil (abs_seconds off t div 86400)))"

definition Hour :: "int \<Rightarrow> int \<Rightarrow> int" where
  "Hour off t = abs_seconds off t mod 86400 div 3600"

definition Minute :: "int \<Rightarrow> int \<Rightarrow> int" where
  "Minute off t = abs_seconds off t mod 3600 div 60"

definition Second :: "int \<Rightarrow> int \<Rightarrow> int" where
  "Second off t = abs_seconds off t mod 60"

text \<open>The day number of a civil date, the inverse of \<open>civil\<close>.\<close>

definition days_from_civil :: "int \<Rightarrow> int \<Rightarrow> int \<Rightarrow> int" where
  "days_from_civil y0 m d =
     (let y = (if m \<le> 2 then y0 - 1 else y0);
          era = y div 400;
          yoe = y - era * 400;
          mp = (if m > 2 then m - 3 else m + 9);
          doy = (153 * mp + 2) div 5 + d - 1;
          doe = yoe * 365 + yoe div 4 - yoe div 100 + doy
      in era * 146097 + doe - 719468)"

text \<open>
  \<^verbatim>\<open>time.Date(year, month, day, 0, 0, 0, 0, loc)\<close>, for a month and a day in their ranges:
  the instant at which that civil day begins in \<open>loc\<close>.
\<close>

definition Date :: "int \<Rightarrow> int \<Rightarrow> int \<Rightarrow> int \<Rightarrow> int" where
  "Date off year month day = (days_from_civil year month day * 86400 - off) * ns_per_second"

fun digits :: "nat \<Rightarrow> string" where
  "digits n =
     (if n < 10 then [''0123456789'' ! n]
      else digits (n div 10) @ [''0123456789'' ! (n mod 10)])"

declare digits.simps [simp del]

text \<open>\<^verbatim>\<open>appendInt(b, x, width)\<close> of package time: sign, zero padding, decimal digits.\<close>

definition appendInt :: "int \<Rightarrow> nat \<Rightarrow> string" where
  "appendInt x width =
     (let ds = digits (nat \<bar>x\<bar>)
      in (if x < 0 then ''-'' else []) @ replicate (width - length ds) CHR ''0'' @ ds)"

text \<open>\<^verbatim>\<open>t.Format(timeFormat)\<close> with \<^verbatim>\<open>timeFormat = "20060102_150405"\<close>.\<close>

definition Format :: "int \<Rightarrow> int \<Rightarrow> string" where
  "Format off t =
     appendInt (Year off t) 4 @ appendInt (Month off t) 2 @ appendInt (Day off t) 2 @ ''_''
     @ appendInt (Hour off t) 2 @ appendInt (Minute off t) 2 @ appendInt (Second off t) 2"


subsection \<open>The file system and the process environment\<close>

text \<open>
  A directory entry names a regular file by its inode number or is a symbolic link with
  its target string; file contents live in a store indexed by inode, so that an open
  handle keeps its file when the entry is removed. Paths are compared as strings.
  Directories are not entries: \<^verbatim>\<open>os.MkdirAll\<close> succeeds unless \<open>mkdir_err\<close> is set.
  The system agrees with this for paths in the form that \<^verbatim>\<open>filepath.Clean\<close> gives, when
  the entries are files and links in directories that exist or that \<^verbatim>\<open>os.MkdirAll\<close>
  makes; a path with a trailing separator or a \<^verbatim>\<open>..\<close> element, a directory in the place
  of a file and a file in the place of a directory are outside this description.
  The remaining fields decide which system calls fail: \<open>stat_err\<close> (a \<^verbatim>\<open>Stat\<close> or
  \<^verbatim>\<open>Lstat\<close> error other than "does not exist"), \<open>open_err\<close>, \<open>remove_err\<close>,
  \<open>symlink_err\<close>, \<open>close_err\<close>, and \<open>disk_room\<close>, the number of bytes the device still
  accepts (\<open>None\<close>: no limit). The field \<open>rotations\<close> is not part of the file system: it
  counts the calls of \<^verbatim>\<open>rotate\<close>, so that a statement can say that none happened.
\<close>

datatype entry = Regular nat | Symlink string

record world =
  entries :: "string \<rightharpoonup> entry"
  content :: "nat \<Rightarrow> string"
  next_ino :: nat
  mkdir_err :: bool
  stat_err :: "string \<Rightarrow> bool"
  open_err :: "string \<Rightarrow> bool"
  remove_err :: bool
  symlink_err :: bool
  close_err :: bool
  disk_room :: "nat option"
  rotations :: nat

text \<open>
  The package variable \<^verbatim>\<open>megabyte\<close> (which the tests overwrite), \<^verbatim>\<open>os.TempDir()\<close>,
  \<^verbatim>\<open>os.Args[0]\<close> and the offset of \<^verbatim>\<open>time.Local\<close>. The zone has this one offset at every
  instant: a zone whose offset changes (daylight saving) is not described, and with
  \<^verbatim>\<open>LocalTime\<close> unset the code does not consult it.
\<close>

record env =
  megabyte :: int
  TempDir :: string
  Args0 :: string
  local_offset :: int

text \<open>An open \<^verbatim>\<open>*os.File\<close>: its inode, whether it was opened with \<^verbatim>\<open>O_APPEND\<close>, and its offset.\<close>

record handle =
  ino :: nat
  append_mode :: bool
  offset :: nat

datatype error =
    WriteTooLong int int
  | CantMakeDirs
  | CantOpenExisting
  | CantOpenNew
  | CantUnlink
  | CantSymlink
  | StatInfoError
  | IOError
  | NilFileInfoPanic

datatype stat = NotExist | StatError | FileInfo nat

definition max_links :: nat where
  "max_links = 40"

text \<open>
  Following symbolic links in the last component of a path: an absolute target replaces
  the path, a relative one is taken from the directory of the link.
\<close>

fun resolve :: "(string \<rightharpoonup> entry) \<Rightarrow> nat \<Rightarrow> string \<Rightarrow> string option" where
  "resolve es 0 p = None"
| "resolve es (Suc k) p =
     (case es p of
        Some (Symlink target) \<Rightarrow>
          resolve es k (if target \<noteq> [] \<and> IsPathSeparator (hd target) then target
                        else Join2 (Dir p) target)
      | _ \<Rightarrow> Some p)"

definition os_Stat :: "world \<Rightarrow> string \<Rightarrow> stat" where
  "os_Stat w name =
     (if stat_err w name then StatError
      else case resolve (entries w) max_links name of
        None \<Rightarrow> StatError
      | Some q \<Rightarrow>
          (case entries w q of
             None \<Rightarrow> NotExist
           | Some (Regular i) \<Rightarrow> FileInfo (length (content w i))
           | Some (Symlink target) \<Rightarrow> StatError))"

definition os_Lstat_ok :: "world \<Rightarrow> string \<Rightarrow> bool" where
  "os_Lstat_ok w name = (\<not> stat_err w name \<and> entries w name \<noteq> None)"

text \<open>\<^verbatim>\<open>os.OpenFile(name, os.O_APPEND|os.O_WRONLY, mode)\<close>.\<close>

definition open_append :: "world \<Rightarrow> string \<Rightarrow> handle option" where
  "open_append w name =
     (if open_err w name then None
      else case resolve (entries w) max_links name of
        None \<Rightarrow> None
      | Some q \<Rightarrow>
          (case entries w q of
             Some (Regular i) \<Rightarrow> Some \<lparr>ino = i, append_mode = True, offset = 0\<rparr>
           | _ \<Rightarrow> None))"

text \<open>\<^verbatim>\<open>os.OpenFile(name, os.O_CREATE|os.O_WRONLY|os.O_TRUNC, mode)\<close>.\<close>

definition open_create :: "world \<Rightarrow> string \<Rightarrow> (handle \<times> world) option" where
  "open_create w name =
     (if open_err w name then None
      else case resolve (entries w) max_links name of
        None \<Rightarrow> None
      | Some q \<Rightarrow>
          (case entries w q of
             Some (Regular i) \<Rightarrow>
               Some (\<lparr>ino = i, append_mode = False, offset = 0\<rparr>,
                     w\<lparr>content := (content w)(i := [])\<rparr>)
           | None \<Rightarrow>
               Some (\<lparr>ino = next_ino w, append_mode = False, offset = 0\<rparr>,
                     w\<lparr>entries := (entries w)(q \<mapsto> Regular (next_ino w)),
                       content := (content w)(next_ino w := []),
                       next_ino := next_ino w + 1\<rparr>)
           | Some (Symlink target) \<Rightarrow> None))"

text \<open>
  \<^verbatim>\<open>(*os.File).Write\<close>: the device takes as many bytes as it has room for; fewer than
  \<open>length p\<close> is an error. An append handle writes at the end of the file, another one
  at its offset.
\<close>

definition file_write :: "world \<Rightarrow> handle \<Rightarrow> string \<Rightarrow> nat \<times> error option \<times> handle \<times> world" where
  "file_write w f p =
     (let n = (case disk_room w of None \<Rightarrow> length p | Some k \<Rightarrow> min k (length p));
          old = content w (ino f);
          new = (if append_mode f then old @ take n p
                 else take (offset f) old @ replicate (offset f - length old) (CHR 0x00)
                      @ take n p @ drop (offset f + n) old)
      in (n,
          (if n < length p then Some IOError else None),
          f\<lparr>offset := (if append_mode f then length new else offset f + n)\<rparr>,
          w\<lparr>content := (content w)(ino f := new),
            disk_room := map_option (\<lambda>k. k - n) (disk_room w)\<rparr>))"

subsection \<open>The rolling logger (package lumberjack)\<close>

text \<open>
  The struct \<^verbatim>\<open>Logger\<close>. Its fields \<^verbatim>\<open>size\<close> and \<^verbatim>\<open>file\<close> are \<open>lsize\<close> and \<open>lfile\<close> here; the
  mutex is left out, every operation being modelled as one uninterrupted step. The clock
  \<^verbatim>\<open>currentTime()\<close> is read as one value \<open>now\<close> for the whole of an operation.
\<close>

record Logger =
  Filename :: string
  RotationTime :: int
  MaxSize :: int
  LocalTime :: bool
  lsize :: int
  lfile :: "handle option"

definition defaultMaxSize :: int where "defaultMaxSize = 100"
definition defaultRotationTime :: int where "defaultRotationTime = 5"
definition defaultBufSize :: nat where "defaultBufSize = 4096"

definition get_filename :: "env \<Rightarrow> Logger \<Rightarrow> string" where
  "get_filename e l =
     (if Filename l \<noteq> [] then Filename l
      else Join2 (TempDir e) (Base (Args0 e) @ ''-lumberjack.log''))"

definition get_max_size :: "env \<Rightarrow> Logger \<Rightarrow> int" where
  "get_max_size e l =
     (if MaxSize l \<le> 0 then wrap64 (defaultMaxSize * megabyte e)
      else wrap64 (MaxSize l * megabyte e))"

definition get_rotation_time :: "Logger \<Rightarrow> int" where
  "get_rotation_time l =
     (if RotationTime l \<le> 0 then defaultRotationTime else RotationTime l)"

definition get_dir :: "env \<Rightarrow> Logger \<Rightarrow> string" where
  "get_dir e l = Dir (get_filename e l)"

text \<open>\<^verbatim>\<open>time.Minute * time.Duration(l.get_rotation_time())\<close>, an \<^verbatim>\<open>int64\<close> product.\<close>

definition rotation_window :: "Logger \<Rightarrow> int" where
  "rotation_window l = wrap64 (ns_per_minute * get_rotation_time l)"

text \<open>
  The loop \<^verbatim>\<open>for rotation_datetime.Add(d).Before(t) { rotation_datetime = rotation_datetime.Add(d) }\<close>
  of \<^verbatim>\<open>processName\<close>. \<open>None\<close> is the loop that never ends.
\<close>

partial_function (option) find_rotation :: "int \<Rightarrow> int \<Rightarrow> int \<Rightarrow> int option" where
  "find_rotation d t rotation_datetime =
     (if rotation_datetime + d < t then find_rotation d t (rotation_datetime + d)
      else Some rotation_datetime)"

declare find_rotation.simps [code]

text \<open>
  The timestamp of \<^verbatim>\<open>processName\<close>: the base date and time is midnight of the current
  day, the loop moves it forward by windows, and the result is formatted. The clock
  returns an instant in \<^verbatim>\<open>time.Local\<close>, as \<^verbatim>\<open>time.Now\<close> does, and \<^verbatim>\<open>t.UTC()\<close> changes the
  location only.
\<close>

definition base_datetime :: "int \<Rightarrow> int \<Rightarrow> int" where
  "base_datetime off t =
     (let current_year = Year off t;
          current_month = Month off t;
          current_day = Day off t
      in Date off current_year current_month current_day)"

definition timestamp_of :: "env \<Rightarrow> Logger \<Rightarrow> int \<Rightarrow> string option" where
  "timestamp_of e l t =
     (let off = (if LocalTime l then local_offset e else 0)
      in if get_rotation_time l > 0 then
           map_option (Format off) (find_rotation (rotation_window l) t (base_datetime off t))
         else Some (Format off t))"

text \<open>\<^verbatim>\<open>filepath.Join(dir, fmt.Sprintf("%s-%s%s", prefix, timestamp, ext))\<close> and its indexed form.\<close>

definition backup_name :: "string \<Rightarrow> string \<Rightarrow> string \<Rightarrow> string \<Rightarrow> string" where
  "backup_name dir prefix timestamp ext = Join2 dir (prefix @ ''-'' @ timestamp @ ext)"

definition indexed_name :: "string \<Rightarrow> string \<Rightarrow> string \<Rightarrow> nat \<Rightarrow> string \<Rightarrow> string" where
  "indexed_name dir prefix timestamp counter ext =
     Join2 dir (prefix @ ''-'' @ timestamp @ ''_'' @ digits counter @ ext)"

text \<open>
  The \<^verbatim>\<open>for true\<close> loop of \<^verbatim>\<open>processName\<close>. \<^verbatim>\<open>info.Size()\<close> on the nil \<^verbatim>\<open>FileInfo\<close> of a
  failed \<^verbatim>\<open>Stat\<close> is a nil dereference.
\<close>

partial_function (option) find_name ::
  "world \<Rightarrow> int \<Rightarrow> string \<Rightarrow> string \<Rightarrow> string \<Rightarrow> string \<Rightarrow> int \<Rightarrow> nat \<Rightarrow> (error + string) option" where
  "find_name w max_size dir prefix timestamp ext write_length counter =
     (case os_Stat w (indexed_name dir prefix timestamp counter ext) of
        NotExist \<Rightarrow> Some (Inr (indexed_name dir prefix timestamp counter ext))
      | StatError \<Rightarrow> Some (Inl NilFileInfoPanic)
      | FileInfo sz \<Rightarrow>
          if int sz + write_length > max_size then
            find_name w max_size dir prefix timestamp ext write_length (counter + 1)
          else Some (Inr (indexed_name dir prefix timestamp counter ext)))"

declare find_name.simps [code]

definition processName :: "env \<Rightarrow> Logger \<Rightarrow> world \<Rightarrow> int \<Rightarrow> int \<Rightarrow> (error + string) option" where
  "processName e l w now write_length =
     (let dir = Dir (get_filename e l);
          filename = Base (get_filename e l);
          ext = Ext filename;
          prefix = take (length filename - length ext) filename
      in case timestamp_of e l now of
           None \<Rightarrow> None
         | Some timestamp \<Rightarrow>
             (case os_Stat w (backup_name dir prefix timestamp ext) of
                NotExist \<Rightarrow> Some (Inr (backup_name dir prefix timestamp ext))
              | StatError \<Rightarrow> Some (Inl NilFileInfoPanic)
              | FileInfo sz \<Rightarrow>
                  if int sz + write_length > get_max_size e l then
                    find_name w (get_max_size e l) dir prefix timestamp ext write_length 2
                  else Some (Inr (backup_name dir prefix timestamp ext))))"

definition close :: "Logger \<Rightarrow> world \<Rightarrow> error option \<times> Logger \<times> world" where
  "close l w =
     (case lfile l of
        None \<Rightarrow> (None, l, w)
      | Some f \<Rightarrow> ((if close_err w then Some IOError else None), l\<lparr>lfile := None\<rparr>, w))"

text \<open>The first half of \<^verbatim>\<open>openNew\<close>: open the named file for append if \<^verbatim>\<open>Stat\<close> found it, else create it.\<close>

definition open_named :: "world \<Rightarrow> string \<Rightarrow> error + handle \<times> world" where
  "open_named w name =
     (case os_Stat w name of
        FileInfo sz \<Rightarrow>
          (case open_append w name of
             None \<Rightarrow> Inl CantOpenExisting
           | Some f \<Rightarrow> Inr (f, w))
      | _ \<Rightarrow>
          (case open_create w name of
             None \<Rightarrow> Inl CantOpenNew
           | Some fw \<Rightarrow> Inr fw))"

text \<open>
  The second half: \<^verbatim>\<open>os.Lstat\<close>, \<^verbatim>\<open>os.Remove\<close> and \<^verbatim>\<open>os.Symlink\<close> on the destination. The
  world returned with an error is the one reached when the failing call was made.
\<close>

definition relink :: "world \<Rightarrow> string \<Rightarrow> string \<Rightarrow> error option \<times> world" where
  "relink w name dest =
     (if os_Lstat_ok w dest \<and> remove_err w then (Some CantUnlink, w)
      else
        let w' = (if os_Lstat_ok w dest then w\<lparr>entries := (entries w)(dest := None)\<rparr> else w)
        in if symlink_err w' \<or> entries w' dest \<noteq> None then (Some CantSymlink, w')
           else (None, w'\<lparr>entries := (entries w')(dest \<mapsto> Symlink name)\<rparr>))"

text \<open>
  \<^verbatim>\<open>openNew\<close>. The inode of the handle is asked for its size after the link was made
  (\<^verbatim>\<open>info, _ := f.Stat()\<close>).
\<close>

definition openNew :: "env \<Rightarrow> Logger \<Rightarrow> world \<Rightarrow> int \<Rightarrow> (error option \<times> Logger \<times> world) option" where
  "openNew e l w now =
     (if mkdir_err w then Some (Some CantMakeDirs, l, w)
      else case processName e l w now 0 of
        None \<Rightarrow> None
      | Some (Inl err) \<Rightarrow> Some (Some err, l, w)
      | Some (Inr name) \<Rightarrow>
          (case open_named w name of
             Inl err \<Rightarrow> Some (Some err, l, w)
           | Inr (f, w1) \<Rightarrow>
               (case relink w1 name (get_filename e l) of
                  (Some err, w2) \<Rightarrow> Some (Some err, l, w2)
                | (None, w2) \<Rightarrow>
                    Some (None,
                          l\<lparr>lfile := Some f, lsize := int (length (content w2 (ino f)))\<rparr>,
                          w2))))"

text \<open>
  \<^verbatim>\<open>rotate\<close> (named \<open>rotate_logger\<close> here, \<open>rotate\<close> being a function on lists) closes the
  current file and opens a new one.
\<close>

definition rotate_logger :: "env \<Rightarrow> Logger \<Rightarrow> world \<Rightarrow> int \<Rightarrow> (error option \<times> Logger \<times> world) option" where
  "rotate_logger e l w now =
     (case close l (w\<lparr>rotations := rotations w + 1\<rparr>) of
        (Some err, l1, w1) \<Rightarrow> Some (Some err, l1, w1)
      | (None, l1, w1) \<Rightarrow> openNew e l1 w1 now)"

definition openExistingOrNew ::
  "env \<Rightarrow> Logger \<Rightarrow> world \<Rightarrow> int \<Rightarrow> int \<Rightarrow> (error option \<times> Logger \<times> world) option" where
  "openExistingOrNew e l w now writeLen =
     (case processName e l w now writeLen of
        None \<Rightarrow> None
      | Some (Inl err) \<Rightarrow> Some (Some err, l, w)
      | Some (Inr name) \<Rightarrow>
          (case os_Stat w name of
             NotExist \<Rightarrow> openNew e l w now
           | StatError \<Rightarrow> Some (Some StatInfoError, l, w)
           | FileInfo sz \<Rightarrow>
               if int sz + writeLen \<ge> get_max_size e l then rotate_logger e l w now
               else
                 (case open_append w name of
                    None \<Rightarrow> openNew e l w now
                  | Some f \<Rightarrow> Some (None, l\<lparr>lfile := Some f, lsize := int sz\<rparr>, w))))"

text \<open>
  \<^verbatim>\<open>w := bufio.NewWriter(l.file); n, err = w.Write(p); w.Flush()\<close>. A fresh
  \<^verbatim>\<open>bufio.Writer\<close> holds \<open>defaultBufSize\<close> bytes: a longer \<open>p\<close> goes straight to the
  file and \<^verbatim>\<open>Write\<close> returns the file's count and error; a shorter one is copied to the
  buffer, \<^verbatim>\<open>Write\<close> returns \<open>(length p, nil)\<close>, and \<^verbatim>\<open>Flush\<close> writes the buffer to the
  file. The result of \<^verbatim>\<open>Flush\<close> is not looked at by the caller.
\<close>

definition bufio_Write_Flush ::
  "world \<Rightarrow> handle option \<Rightarrow> string \<Rightarrow> nat \<times> error option \<times> handle option \<times> world" where
  "bufio_Write_Flush w fo p =
     (case fo of
        None \<Rightarrow>
          if length p > defaultBufSize then (0, Some IOError, None, w)
          else (length p, None, None, w)
      | Some f \<Rightarrow>
          (case file_write w f p of
             (n, err, f', w') \<Rightarrow>
               if length p > defaultBufSize then (n, err, Some f', w')
               else (length p, None, Some f', w')))"

definition Write ::
  "env \<Rightarrow> Logger \<Rightarrow> world \<Rightarrow> int \<Rightarrow> string \<Rightarrow> (int \<times> error option \<times> Logger \<times> world) option" where
  "Write e l w now p =
     (let writeLen = int (length p)
      in if writeLen > get_max_size e l then
           Some (0, Some (WriteTooLong writeLen (get_max_size e l)), l, w)
         else case openExistingOrNew e l w now writeLen of
           None \<Rightarrow> None
         | Some (Some err, l1, w1) \<Rightarrow> Some (0, Some err, l1, w1)
         | Some (None, l1, w1) \<Rightarrow>
             (case (if lsize l1 + writeLen > get_max_size e l1 then rotate_logger e l1 w1 now
                    else Some (None, l1, w1)) of
                None \<Rightarrow> None
              | Some (Some err, l2, w2) \<Rightarrow> Some (0, Some err, l2, w2)
              | Some (None, l2, w2) \<Rightarrow>
                  (case bufio_Write_Flush w2 (lfile l2) p of
                     (n, err, f', w3) \<Rightarrow>
                       Some (int n, err, l2\<lparr>lfile := f', lsize := lsize l2 + int n\<rparr>, w3))))"

definition Close :: "Logger \<Rightarrow> world \<Rightarrow> error option \<times> Logger \<times> world" where
  "Close l w = close l w"

definition Rotate :: "env \<Rightarrow> Logger \<Rightarrow> world \<Rightarrow> int \<Rightarrow> (error option \<times> Logger \<times> world) option" where
  "Rotate e l w now = rotate_logger e l w now"

text \<open>Reading a path as \<^verbatim>\<open>ioutil.ReadFile\<close> does: through symbolic links.\<close>

definition read_path :: "world \<Rightarrow> string \<Rightarrow> string option" where
  "read_path w name =
     (case resolve (entries w) max_links name of
        None \<Rightarrow> None
      | Some q \<Rightarrow>
          (case entries w q of
             Some (Regular i) \<Rightarrow> Some (content w i)
           | _ \<Rightarrow> None))"

definition empty_world :: world where
  "empty_world =
     \<lparr>entries = Map.empty, content = (\<lambda>i. []), next_ino = 0, mkdir_err = False,
      stat_err = (\<lambda>p. False), open_err = (\<lambda>p. False), remove_err = False,
      symlink_err = False, close_err = False, disk_room = None, rotations = 0\<rparr>"



subsection \<open>Notions used in the statements\<close>

text \<open>
  The two forms of name that \<^verbatim>\<open>processName\<close> builds from a timestamp, as functions of the
  configuration: \<^verbatim>\<open><dir>/<stem>-<timestamp><ext>\<close> and \<^verbatim>\<open><dir>/<stem>-<timestamp>_<n><ext>\<close>.
\<close>

definition candidate_name :: "env \<Rightarrow> Logger \<Rightarrow> string \<Rightarrow> string" where
  "candidate_name e l timestamp =
     (let filename = Base (get_filename e l); ext = Ext filename
      in backup_name (Dir (get_filename e l))
           (take (length filename - length ext) filename) timestamp ext)"

definition alternate_name :: "env \<Rightarrow> Logger \<Rightarrow> string \<Rightarrow> nat \<Rightarrow> string" where
  "alternate_name e l timestamp counter =
     (let filename = Base (get_filename e l); ext = Ext filename
      in indexed_name (Dir (get_filename e l))
           (take (length filename - length ext) filename) timestamp counter ext)"

text \<open>An element of a path that \<^verbatim>\<open>Clean\<close> keeps as it is.\<close>

definition real_element :: "string \<Rightarrow> bool" where
  "real_element c = (c \<noteq> [] \<and> c \<noteq> ''.'' \<and> c \<noteq> ''..'' \<and> (\<forall>x\<in>set c. \<not> IsPathSeparator x))"

text \<open>The size counter is the length of the open file, and a handle without
  \<^verbatim>\<open>O_APPEND\<close> is at offset 0 of an empty file.\<close>

definition handle_ok :: "Logger \<Rightarrow> world \<Rightarrow> bool" where
  "handle_ok l w =
     (\<exists>f. lfile l = Some f \<and> lsize l = int (length (content w (ino f)))
          \<and> (append_mode f \<or> (offset f = 0 \<and> content w (ino f) = [])))"


text \<open>
  What a call of \<^verbatim>\<open>Write\<close> returned and left behind: the count, the error, the size
  counter, and for each of the given paths its directory entry and what reading it
  gives.
\<close>

definition observe ::
  "(int \<times> error option \<times> Logger \<times> world) option \<Rightarrow> string list \<Rightarrow>
   (int \<times> error option \<times> int \<times> (entry option \<times> string option) list) option" where
  "observe r names =
     map_option (\<lambda>(n, err, l, w).
       (n, err, lsize l, map (\<lambda>name. (entries w name, read_path w name)) names)) r"


subsection \<open>Concrete inputs\<close>

text \<open>
  The setting of the package's tests and of the scenario of the specification:
  \<^verbatim>\<open>megabyte = 1\<close>, a log file \<^verbatim>\<open>foobar.log\<close>, \<^verbatim>\<open>MaxSize\<close> 10, a window of sixty minutes,
  UTC, and the clock at 2009-11-17T20:34:58.651387237Z.
\<close>

definition test_env :: env where
  "test_env = \<lparr>megabyte = 1, TempDir = ''/tmp'', Args0 = ''/usr/bin/fileserver-go'', local_offset = 0\<rparr>"

definition test_logger :: Logger where
  "test_logger = \<lparr>Filename = ''/d/foobar.log'', RotationTime = 60, MaxSize = 10, LocalTime = False, lsize = 0, lfile = None\<rparr>"

definition fakeCurrentTime :: int where
  "fakeCurrentTime = 1258490098651387237"

text \<open>A directory that holds the backup file of that window, with the given content, and nothing else.\<close>

definition backup_world :: "string \<Rightarrow> world" where
  "backup_world c =
     empty_world\<lparr>entries := [''/d/foobar-20091117_200000.log'' \<mapsto> Regular 0],
                 content := (\<lambda>i. if i = 0 then c else []),
                 next_ino := 1\<rparr>"


text \<open>
  A directory in which the backup file of the window and its first alternate both
  exist, with the given contents.
\<close>

definition crowded_world :: "string \<Rightarrow> string \<Rightarrow> world" where
  "crowded_world c c2 =
     empty_world\<lparr>entries := [''/d/foobar-20091117_200000.log'' \<mapsto> Regular 0,
                              ''/d/foobar-20091117_200000_2.log'' \<mapsto> Regular 1],
                 content := (\<lambda>i. if i = 0 then c else if i = 1 then c2 else []),
                 next_ino := 2\<rparr>"

text \<open>The instant 2009-11-17T21:00:00.000000000Z, a multiple of sixty minutes after midnight.\<close>

definition boundary_time :: int where
  "boundary_time = 1258491600000000000"


section \<open>Properties of the utilities and of the middleware\<close>

lemma underscore_not_reserved: "CHR ''_'' \<notin> set reserved_chars"
  by (simp add: reserved_chars_def)

lemma sanitize_char_not_reserved:
  "(if c \<in> set reserved_chars then CHR ''_'' else c) \<notin> set reserved_chars"
  using underscore_not_reserved by (cases "c \<in> set reserved_chars") simp_all

lemma SanitizeFilename_no_reserved: "set (SanitizeFilename s) \<inter> set reserved_chars = {}"
proof -
  have "x \<notin> set reserved_chars" if "x \<in> set (SanitizeFilename s)" for x
  proof -
    from that obtain c where "x = (if c \<in> set reserved_chars then CHR ''_'' else c)"
      unfolding SanitizeFilename_def set_map by blast
    then show ?thesis using sanitize_char_not_reserved by simp
  qed
  then show ?thesis by blast
qed

lemma SanitizeFilename_twice: "SanitizeFilename (SanitizeFilename s) = SanitizeFilename s"
proof -
  have "(if (if c \<in> set reserved_chars then CHR ''_'' else c) \<in> set reserved_chars then CHR ''_''
         else (if c \<in> set reserved_chars then CHR ''_'' else c))
        = (if c \<in> set reserved_chars then CHR ''_'' else c)" for c
    using sanitize_char_not_reserved [of c] by presburger
  then show ?thesis by (simp add: SanitizeFilename_def)
qed

section \<open>Paths and timestamps\<close>

lemma split_sep_not_Nil: "split_sep s \<noteq> []"
  by (induction s) (auto split: list.splits)

lemma split_sep_append: "split_sep (p @ CHR ''/'' # q) = split_sep p @ split_sep q"
proof (induction p)
  case Nil
  show ?case by (simp add: IsPathSeparator_def)
next
  case (Cons c p)
  then show ?case using split_sep_not_Nil [of p]
    by (cases "split_sep p") (auto simp: IsPathSeparator_def)
qed

lemma split_sep_plain: "\<forall>c\<in>set s. \<not> IsPathSeparator c \<Longrightarrow> split_sep s = [s]"
  by (induction s) auto

lemma join_sep_snoc:
  "join_sep (ys @ [c]) = (if ys = [] then c else join_sep ys @ CHR ''/'' # c)"
  by (induction ys rule: join_sep.induct) auto

lemma Clean_last_element:
  assumes "real_element c"
  shows "\<exists>s. Clean (p @ CHR ''/'' # c) = s @ c \<and> (s = [] \<or> last s = CHR ''/'')"
proof -
  let ?path = "p @ CHR ''/'' # c"
  let ?rooted = "IsPathSeparator (hd ?path)"
  have sp: "split_sep ?path = split_sep p @ [c]"
    using assms by (simp add: split_sep_append split_sep_plain real_element_def)
  define out where "out = foldl (clean_step ?rooted) [] (split_sep p)"
  have fo: "foldl (clean_step ?rooted) [] (split_sep ?path) = c # out"
    using assms by (simp add: sp out_def clean_step_def real_element_def)
  have cl: "Clean ?path = (if ?rooted then CHR ''/'' # join_sep (rev out @ [c]) else join_sep (rev out @ [c]))"
    unfolding Clean_def Let_def fo by simp
  show ?thesis
  proof (cases "out = []")
    case True
    then show ?thesis using cl by (cases ?rooted) (auto simp: join_sep_snoc)
  next
    case False
    then have "join_sep (rev out @ [c]) = (join_sep (rev out) @ ''/'') @ c"
      by (simp add: join_sep_snoc)
    then show ?thesis using cl
      by (cases ?rooted) (metis append_Cons append_assoc last_snoc snoc_eq_iff_butlast)+
  qed
qed

lemma Base_suffix:
  assumes "c \<noteq> []" "\<forall>x\<in>set c. \<not> IsPathSeparator x" "s = [] \<or> last s = CHR ''/''"
  shows "Base (s @ c) = c"
proof -
  have nr: "\<not> IsPathSeparator (hd (rev c))" using assms(1,2)
    by (metis hd_rev last_in_set)
  have rc: "rev c \<noteq> []" using assms(1) by simp
  have d: "dropWhile IsPathSeparator (rev c @ rev s) = rev c @ rev s"
    using nr rc by (cases "rev c") auto
  have t: "takeWhile (\<lambda>x. \<not> IsPathSeparator x) (rev c @ rev s) = rev c"
  proof (cases "s = []")
    case True then show ?thesis using assms(2) by simp
  next
    case False
    with assms(3) have "hd (rev s) = CHR ''/''" by (simp add: hd_rev)
    moreover have "rev s \<noteq> []" using False by simp
    ultimately obtain zs where "rev s = CHR ''/'' # zs" by (cases "rev s") auto
    then show ?thesis using assms(2) by (simp add: takeWhile_append IsPathSeparator_def)
  qed
  show ?thesis using assms(1) by (simp add: Base_def d t)
qed

lemma Base_Clean_last:
  assumes "real_element c"
  shows "Base (Clean (p @ CHR ''/'' # c)) = c"
proof -
  from Clean_last_element [OF assms, of p] obtain s where
    s: "Clean (p @ CHR ''/'' # c) = s @ c" "s = [] \<or> last s = CHR ''/''" by blast
  have "Base (s @ c) = c"
    using assms s(2) by (intro Base_suffix) (auto simp: real_element_def)
  then show ?thesis using s(1) by simp
qed

lemma clean_step_no_Nil: "[] \<notin> set out \<Longrightarrow> [] \<notin> set (clean_step r out e)"
  by (cases out) (auto simp: clean_step_def)

lemma foldl_clean_step_no_Nil:
  "[] \<notin> set out \<Longrightarrow> [] \<notin> set (foldl (clean_step r) out es)"
  by (induction es arbitrary: out) (simp_all add: clean_step_no_Nil)

lemma join_sep_not_Nil: "xs \<noteq> [] \<Longrightarrow> [] \<notin> set xs \<Longrightarrow> join_sep xs \<noteq> []"
  by (induction xs rule: join_sep.induct) auto

lemma Clean_not_Nil: "Clean p \<noteq> []"
proof -
  have "[] \<notin> set (rev (foldl (clean_step r) [] (split_sep p)))" for r
    using foldl_clean_step_no_Nil [of "[]"] by simp
  then have j: "out = foldl (clean_step r) [] (split_sep p) \<Longrightarrow> out \<noteq> [] \<Longrightarrow>
                 join_sep (rev out) \<noteq> []" for r out
    by (intro join_sep_not_Nil) auto
  show ?thesis
  proof (cases "p = []")
    case True
    then show ?thesis by (simp add: Clean_def)
  next
    case False
    show ?thesis
    proof (cases "IsPathSeparator (hd p)")
      case True
      then show ?thesis using False by (simp add: Clean_def Let_def)
    next
      case nr: False
      show ?thesis
      proof (cases "foldl (clean_step False) [] (split_sep p) = []")
        case True
        then show ?thesis using False nr by (simp add: Clean_def Let_def)
      next
        case ne: False
        then show ?thesis using False nr j [OF refl ne] by (simp add: Clean_def Let_def)
      qed
    qed
  qed
qed

lemma Dir_not_Nil: "Dir p \<noteq> []"
  by (simp add: Dir_def Clean_not_Nil)

lemma Join2_Dir: "Join2 (Dir p) x = Clean (Dir p @ CHR ''/'' # x)"
  by (simp add: Join2_def Dir_not_Nil)

lemma digits_chars: "set (digits n) \<subseteq> set ''0123456789''"
proof (induction n rule: digits.induct)
  case (1 n)
  have k: "''0123456789'' ! k \<in> set ''0123456789''" if "k < 10" for k
    using that by (intro nth_mem) simp
  show ?case
  proof (cases "n < 10")
    case True
    then show ?thesis using k [of n] by (subst digits.simps) simp
  next
    case False
    have "n mod 10 < 10" by simp
    then show ?thesis using False 1 k [of "n mod 10"]
      by (subst digits.simps) simp
  qed
qed

lemma digits_not_Nil: "digits n \<noteq> []"
  by (subst digits.simps) simp

lemma slash_not_digit: "CHR ''/'' \<notin> set ''0123456789''"
  by simp

lemma digits_no_sep: "x \<in> set (digits n) \<Longrightarrow> \<not> IsPathSeparator x"
  using digits_chars [of n] slash_not_digit unfolding IsPathSeparator_def by blast

lemma appendInt_no_sep:
  assumes "x \<in> set (appendInt v width)"
  shows "\<not> IsPathSeparator x"
proof -
  from assms have "x = CHR ''-'' \<or> x = CHR ''0'' \<or> x \<in> set (digits (nat \<bar>v\<bar>))"
    unfolding appendInt_def Let_def set_append by (auto split: if_splits)
  then show ?thesis using digits_no_sep [of x] by (auto simp: IsPathSeparator_def)
qed

lemma Format_no_sep: "\<forall>x\<in>set (Format off t). \<not> IsPathSeparator x"
proof
  fix x assume "x \<in> set (Format off t)"
  then have "x = CHR ''_'' \<or> (\<exists>v width. x \<in> set (appendInt v width))"
    unfolding Format_def set_append by auto
  then show "\<not> IsPathSeparator x"
    using appendInt_no_sep by (auto simp: IsPathSeparator_def)
qed

lemma ext_scan_set: "set (ext_scan xs acc) \<subseteq> set xs \<union> set acc"
  by (induction xs acc rule: ext_scan.induct) auto

lemma ext_scan_length: "length (ext_scan xs acc) \<le> length xs + length acc"
  by (induction xs acc rule: ext_scan.induct) auto

lemma Ext_set: "set (Ext f) \<subseteq> set f"
  using ext_scan_set [of "rev f" "[]"] by (simp add: Ext_def)

lemma Ext_length: "length (Ext f) \<le> length f"
  using ext_scan_length [of "rev f" "[]"] by (simp add: Ext_def)

lemma Base_cases: "Base p = ''/'' \<or> (Base p \<noteq> [] \<and> (\<forall>x\<in>set (Base p). \<not> IsPathSeparator x))"
proof (cases "p = []")
  case True
  then show ?thesis by (simp add: Base_def IsPathSeparator_def)
next
  case False
  define el where "el = rev (takeWhile (\<lambda>c. \<not> IsPathSeparator c) (rev (rev (dropWhile IsPathSeparator (rev p)))))"
  have "\<forall>x\<in>set el. \<not> IsPathSeparator x"
    unfolding el_def by (auto dest: set_takeWhileD)
  moreover have "Base p = (if el = [] then ''/'' else el)"
    using False by (simp add: Base_def el_def Let_def)
  ultimately show ?thesis by auto
qed

text \<open>The last element of a backup name is never the last element of the destination.\<close>

lemma backup_Base_differs:
  assumes mid: "\<forall>x\<in>set middle. \<not> IsPathSeparator x"
    and filename_def: "filename = Base dest"
    and ext_def: "ext = Ext filename"
    and prefix_def: "prefix = take (length filename - length ext) filename"
  shows "Base (Join2 (Dir dest) (prefix @ ''-'' @ middle @ ext)) \<noteq> filename"
proof -
  consider (root) "filename = ''/''" | (plain) "filename \<noteq> []" "\<forall>x\<in>set filename. \<not> IsPathSeparator x"
    using Base_cases [of dest] by (auto simp: filename_def)
  then show ?thesis
  proof cases
    case root
    then have e: "ext = []" by (simp add: ext_def Ext_def IsPathSeparator_def)
    then have p: "prefix = ''/''" using root by (simp add: prefix_def)
    have re: "real_element (''-'' @ middle)"
      using mid by (auto simp: real_element_def IsPathSeparator_def)
    have "Join2 (Dir dest) (prefix @ ''-'' @ middle @ ext)
            = Clean ((Dir dest @ ''/'') @ CHR ''/'' # (''-'' @ middle))"
      by (simp add: Join2_Dir e p)
    then have "Base (Join2 (Dir dest) (prefix @ ''-'' @ middle @ ext)) = ''-'' @ middle"
      using Base_Clean_last [OF re, of "Dir dest @ ''/''"] by simp
    then show ?thesis using root by simp
  next
    case plain
    have es: "\<forall>x\<in>set ext. \<not> IsPathSeparator x"
      using plain(2) Ext_set [of filename] by (auto simp: ext_def)
    have ps: "\<forall>x\<in>set prefix. \<not> IsPathSeparator x"
      using plain(2) by (auto simp: prefix_def dest: in_set_takeD)
    let ?x = "prefix @ ''-'' @ middle @ ext"
    have len: "length ?x = length filename + 1 + length middle"
      using Ext_length [of filename] by (simp add: prefix_def ext_def)
    have mem: "CHR ''-'' \<in> set ?x" by simp
    have "?x \<noteq> ''.''" "?x \<noteq> ''..''" "?x \<noteq> []"
      using mem by (auto simp del: set_append)
    then have re: "real_element ?x"
      using es ps mid by (auto simp: real_element_def IsPathSeparator_def)
    have "Base (Join2 (Dir dest) ?x) = ?x"
      using Base_Clean_last [OF re] by (simp add: Join2_Dir)
    moreover have "?x \<noteq> filename" using len by auto
    ultimately show ?thesis by simp
  qed
qed

lemma timestamp_of_no_sep:
  "timestamp_of e l now = Some ts \<Longrightarrow> \<forall>x\<in>set ts. \<not> IsPathSeparator x"
  using Format_no_sep by (auto simp: timestamp_of_def Let_def split: if_splits)

lemma find_name_form_aux:
  assumes "find_name w m dir prefix ts ext wl k = Some y"
  shows "\<forall>name. y = Inr name \<longrightarrow> (\<exists>j. name = indexed_name dir prefix ts j ext)"
  by (rule find_name.raw_induct
        [where P = "\<lambda>w m dir prefix ts ext wl k y.
                      \<forall>name. y = Inr name \<longrightarrow> (\<exists>j. name = indexed_name dir prefix ts j ext)",
         OF _ assms])
     (auto split: stat.splits if_splits)

lemma find_name_form:
  "find_name w m dir prefix ts ext wl k = Some (Inr name) \<Longrightarrow>
   \<exists>j. name = indexed_name dir prefix ts j ext"
  using find_name_form_aux by blast

lemma processName_form:
  assumes "processName e l w now wl = Some (Inr name)"
  shows "\<exists>ts middle. timestamp_of e l now = Some ts
           \<and> (middle = ts \<or> (\<exists>j. middle = ts @ ''_'' @ digits j))
           \<and> name = Join2 (Dir (get_filename e l))
                  (take (length (Base (get_filename e l)) - length (Ext (Base (get_filename e l))))
                        (Base (get_filename e l))
                   @ ''-'' @ middle @ Ext (Base (get_filename e l)))"
proof -
  from assms obtain ts where ts: "timestamp_of e l now = Some ts"
    by (auto simp: processName_def Let_def split: option.splits)
  let ?dir = "Dir (get_filename e l)"
  let ?fn = "Base (get_filename e l)"
  let ?ext = "Ext ?fn"
  let ?prefix = "take (length ?fn - length ?ext) ?fn"
  from assms ts have "name = backup_name ?dir ?prefix ts ?ext
      \<or> find_name w (get_max_size e l) ?dir ?prefix ts ?ext wl 2 = Some (Inr name)"
    by (auto simp: processName_def Let_def split: stat.splits if_splits)
  then show ?thesis
  proof
    assume "name = backup_name ?dir ?prefix ts ?ext"
    then show ?thesis using ts by (auto simp: backup_name_def)
  next
    assume "find_name w (get_max_size e l) ?dir ?prefix ts ?ext wl 2 = Some (Inr name)"
    from find_name_form [OF this] obtain j where "name = indexed_name ?dir ?prefix ts j ?ext" ..
    then show ?thesis using ts by (auto simp: indexed_name_def)
  qed
qed

lemma middle_no_sep:
  assumes "\<forall>x\<in>set ts. \<not> IsPathSeparator x"
    and "middle = ts \<or> (\<exists>j. middle = ts @ ''_'' @ digits j)"
  shows "\<forall>x\<in>set middle. \<not> IsPathSeparator x"
proof
  fix x assume x: "x \<in> set middle"
  from assms(2) show "\<not> IsPathSeparator x"
  proof
    assume "middle = ts" with x assms(1) show ?thesis by simp
  next
    assume "\<exists>j. middle = ts @ ''_'' @ digits j"
    then obtain j where "middle = ts @ ''_'' @ digits j" ..
    with x have "x \<in> set ts \<or> x = CHR ''_'' \<or> x \<in> set (digits j)" by auto
    then show ?thesis using assms(1) digits_no_sep [of x j]
      by (auto simp: IsPathSeparator_def)
  qed
qed


section \<open>The loops of the name generator\<close>

text \<open>What the window loop computes when the window is positive.\<close>

lemma find_rotation_spec:
  assumes "0 < d"
  shows "\<exists>k. find_rotation d t m = Some (m + int k * d)
             \<and> (k = 0 \<or> m + int k * d < t) \<and> (m + int k * d < t \<longrightarrow> t \<le> m + (int k + 1) * d)
             \<and> (m + d < t \<longrightarrow> k \<noteq> 0)"
  using assms
proof (induction "nat (t - m)" arbitrary: m rule: less_induct)
  case less
  show ?case
  proof (cases "m + d < t")
    case False
    then have "find_rotation d t m = Some (m + int 0 * d)"
      by (subst find_rotation.simps) simp
    moreover have "m + int 0 * d < t \<longrightarrow> t \<le> m + (int 0 + 1) * d" using False by simp
    ultimately show ?thesis using False by blast
  next
    case True
    then have "nat (t - (m + d)) < nat (t - m)" using less.prems by linarith
    from less.hyps [OF this less.prems] obtain k where
      k: "find_rotation d t (m + d) = Some (m + d + int k * d)"
         "k = 0 \<or> m + d + int k * d < t"
         "m + d + int k * d < t \<longrightarrow> t \<le> m + d + (int k + 1) * d"
      by blast
    have e: "m + d + int k * d = m + int (Suc k) * d" by (simp add: algebra_simps)
    have "find_rotation d t m = Some (m + int (Suc k) * d)"
      using True k(1) e by (subst find_rotation.simps) simp
    moreover have "m + int (Suc k) * d < t" using k(2) True e by auto
    moreover have "t \<le> m + (int (Suc k) + 1) * d" using k(3) \<open>m + int (Suc k) * d < t\<close> e
      by (simp add: algebra_simps)
    ultimately show ?thesis by blast
  qed
qed

lemma find_name_first:
  assumes full: "\<forall>k. c \<le> k \<and> k < n \<longrightarrow>
                  (\<exists>sz. os_Stat w (indexed_name dir prefix ts k ext) = FileInfo sz
                        \<and> int sz + wl > m)"
    and room: "os_Stat w (indexed_name dir prefix ts n ext) = NotExist
               \<or> (\<exists>sz. os_Stat w (indexed_name dir prefix ts n ext) = FileInfo sz
                        \<and> int sz + wl \<le> m)"
    and le: "c \<le> n"
  shows "find_name w m dir prefix ts ext wl c = Some (Inr (indexed_name dir prefix ts n ext))"
  using full le
proof (induction "n - c" arbitrary: c)
  case 0
  then have "c = n" by simp
  then show ?case using room by (subst find_name.simps) auto
next
  case (Suc d)
  then have lt: "c < n" by simp
  with Suc.prems obtain sz where
    sz: "os_Stat w (indexed_name dir prefix ts c ext) = FileInfo sz" "int sz + wl > m"
    by blast
  have "find_name w m dir prefix ts ext wl (c + 1) = Some (Inr (indexed_name dir prefix ts n ext))"
    using Suc.hyps(1) [of "c + 1"] Suc.hyps(2) Suc.prems lt by auto
  then show ?case using sz by (subst find_name.simps) simp
qed

text \<open>The window is positive for every configured number of minutes below about 292 years.\<close>

lemma rotation_window_positive:
  assumes "RotationTime l < 153722867"
  shows "0 < rotation_window l"
proof -
  define r where "r = get_rotation_time l"
  have r: "1 \<le> r" "r < 153722867"
    using assms by (auto simp: r_def get_rotation_time_def defaultRotationTime_def)
  have "rotation_window l = wrap64 (60000000000 * r)"
    by (simp add: rotation_window_def r_def ns_per_minute_def ns_per_second_def)
  also have "\<dots> = 60000000000 * r"
    using r by (simp add: wrap64_def)
  finally show ?thesis using r by simp
qed

lemma timestamp_of_returns:
  assumes "0 < rotation_window l"
  shows "\<exists>ts. timestamp_of e l now = Some ts"
proof -
  from find_rotation_spec [OF assms] obtain k where
    "find_rotation (rotation_window l) now
       (base_datetime (if LocalTime l then local_offset e else 0) now)
     = Some (base_datetime (if LocalTime l then local_offset e else 0) now
             + int k * rotation_window l)"
    by blast
  then show ?thesis by (simp add: timestamp_of_def Let_def)
qed

text \<open>The calendar: \<open>days_from_civil\<close> undoes \<open>civil\<close>.\<close>

lemma div_eqI: "(c::int) * v \<le> u \<Longrightarrow> u < c * v + c \<Longrightarrow> 0 < c \<Longrightarrow> u div c = v"
proof -
  assume a: "c * v \<le> u" "u < c * v + c" "0 < c"
  have "u = c * v + (u - c * v)" by simp
  moreover have "0 \<le> u - c * v" "u - c * v < c" using a by simp_all
  ultimately show ?thesis using a(3) by (metis div_mult_self2 div_pos_pos_trivial add.commute add.right_neutral less_irrefl)
qed

lemma div_1460:
  fixes x b r k s :: int
  assumes "x = 36524 * b + r" "r = 1461 * k + s" "0 \<le> b" "b \<le> 3" "0 \<le> k" "k \<le> 24"
    "0 \<le> s" "s < 1461" "k = 24 \<longrightarrow> s \<le> 1459"
  shows "x div 1460 = 25 * b + k + (if 1460 \<le> 24 * b + k + s then 1 else 0)"
proof (cases "1460 \<le> 24 * b + k + s")
  case True
  have "x div 1460 = 25 * b + k + 1"
  proof (rule div_eqI)
    show "1460 * (25 * b + k + 1) \<le> x" using assms(1-8) True by (simp add: algebra_simps)
    show "x < 1460 * (25 * b + k + 1) + 1460" using assms(1-8) True by (simp add: algebra_simps)
  qed simp
  then show ?thesis using True by simp
next
  case False
  have "x div 1460 = 25 * b + k"
  proof (rule div_eqI)
    show "1460 * (25 * b + k) \<le> x" using assms(1-8) False by (simp add: algebra_simps)
    show "x < 1460 * (25 * b + k) + 1460" using assms(1-8) False by (simp add: algebra_simps)
  qed simp
  then show ?thesis using False by simp
qed

lemma year_of_era_params:
  fixes x b k s :: int
  assumes x: "x = 36524 * b + 1461 * k + s"
    and b: "0 \<le> b" "b \<le> 3" and k: "0 \<le> k" "k \<le> 24" and s: "0 \<le> s" "s < 1461"
    and s24: "k = 24 \<longrightarrow> s \<le> 1459"
    and lt: "x < 146096"
  defines "yoe \<equiv> (x - x div 1460 + x div 36524 - x div 146096) div 365"
  shows "0 \<le> yoe \<and> yoe \<le> 399
         \<and> 0 \<le> x - (365 * yoe + yoe div 4 - yoe div 100)
         \<and> x - (365 * yoe + yoe div 4 - yoe div 100) \<le> 365"
proof -
  define e :: int where "e = (if 1460 \<le> 24 * b + k + s then 1 else 0)"
  have e: "0 \<le> e" "e \<le> 1" by (simp_all add: e_def)
  have x0: "0 \<le> x" using x b k s by simp
  have c0: "x div 146096 = 0" using x0 lt by simp
  have r: "1461 * k + s < 36524"
  proof (cases "k = 24")
    case True then show ?thesis using s24 by simp
  next
    case False then have "k \<le> 23" using k by simp
    then show ?thesis using s by simp
  qed
  have bb: "x div 36524 = b"
    using x b k s r by (intro div_eqI) simp_all
  have a: "x div 1460 = 25 * b + k + e"
    unfolding e_def
    by (rule div_1460 [where r = "1461 * k + s"]) (use x b k s s24 in simp_all)
  have e1: "e = 1 \<Longrightarrow> 1364 \<le> s" using b k by (simp add: e_def split: if_splits)
  have se: "0 \<le> s - e" "s - e \<le> 1459"
  proof -
    show "0 \<le> s - e" using e1 e s by (cases "e = 1") simp_all
    show "s - e \<le> 1459"
    proof (cases "s = 1460")
      case True
      then have "k \<noteq> 24" using s24 by auto
      then have "e = 1" using True b k by (simp add: e_def)
      then show ?thesis using True by simp
    next
      case False then show ?thesis using s e by simp
    qed
  qed
  define j where "j = (s - e) div 365"
  have j: "0 \<le> j" "j \<le> 3" "365 * j \<le> s - e" "s - e < 365 * j + 365"
  proof -
    show "0 \<le> j" using se(1) by (simp add: j_def)
    have "(s - e) div 365 \<le> 1459 div 365" using se(2) by (rule zdiv_mono1) simp
    then show "j \<le> 3" by (simp add: j_def)
    have "(s - e) = 365 * j + (s - e) mod 365" by (simp add: j_def)
    moreover have "0 \<le> (s - e) mod 365" "(s - e) mod 365 < 365" by simp_all
    ultimately show "365 * j \<le> s - e" "s - e < 365 * j + 365" by linarith+
  qed
  have n: "x - x div 1460 + x div 36524 - x div 146096 = 365 * (100 * b + 4 * k) + (s - e)"
    unfolding a bb c0 using x by simp
  have y: "yoe = 100 * b + 4 * k + j"
    unfolding yoe_def n using j(3,4) by (intro div_eqI) simp_all
  have q: "yoe div 4 = 25 * b + k" unfolding y using j(1,2) by (intro div_eqI) simp_all
  have h: "yoe div 100 = b" unfolding y using j(1,2) k by (intro div_eqI) simp_all
  have d: "x - (365 * yoe + yoe div 4 - yoe div 100) = s - 365 * j"
    by (simp only: q h) (simp add: y x)
  have j3: "e = 1 \<Longrightarrow> j = 3"
  proof -
    assume e': "e = 1"
    then have "1363 \<le> s - e" using e1 by simp
    then have "1363 < 365 * j + 365" using j(4) by simp
    then show "j = 3" using j(2) by simp
  qed
  have lo: "0 \<le> s - 365 * j" using j(3) e(1) by simp
  have hi: "s - 365 * j \<le> 365"
  proof (cases "e = 1")
    case True
    then show ?thesis using j3 s by simp
  next
    case False
    then have "e = 0" using e by simp
    then show ?thesis using j(4) by simp
  qed
  have "0 \<le> yoe" using b k j(1) by (simp add: y)
  moreover have "yoe \<le> 399" using b k j(2) by (simp add: y)
  ultimately show ?thesis using lo hi unfolding d by simp
qed

lemma year_of_era:
  fixes x :: int
  assumes "0 \<le> x" "x \<le> 146096"
  shows "0 \<le> (x - x div 1460 + x div 36524 - x div 146096) div 365
       \<and> (x - x div 1460 + x div 36524 - x div 146096) div 365 \<le> 399
       \<and> 0 \<le> x - (365 * ((x - x div 1460 + x div 36524 - x div 146096) div 365)
                   + (x - x div 1460 + x div 36524 - x div 146096) div 365 div 4
                   - (x - x div 1460 + x div 36524 - x div 146096) div 365 div 100)
       \<and> x - (365 * ((x - x div 1460 + x div 36524 - x div 146096) div 365)
                   + (x - x div 1460 + x div 36524 - x div 146096) div 365 div 4
                   - (x - x div 1460 + x div 36524 - x div 146096) div 365 div 100) \<le> 365"
proof (cases "x = 146096")
  case True
  then show ?thesis by simp
next
  case False
  with assms(2) have lt: "x < 146096" by simp
  define b where "b = x div 36524"
  define r where "r = x mod 36524"
  define k where "k = r div 1461"
  define s where "s = r mod 1461"
  have xr: "x = 36524 * b + r" by (simp add: b_def r_def)
  have rs: "r = 1461 * k + s" by (simp add: k_def s_def)
  have r: "0 \<le> r" "r < 36524" by (simp_all add: r_def)
  have s: "0 \<le> s" "s < 1461" by (simp_all add: s_def)
  have b0: "0 \<le> b" using assms(1) by (simp add: b_def)
  have "x div 36524 \<le> 146095 div 36524" using lt by (intro zdiv_mono1) simp_all
  then have b3: "b \<le> 3" by (simp add: b_def)
  have k0: "0 \<le> k" using r(1) by (simp add: k_def)
  have "r div 1461 \<le> 36523 div 1461" using r(2) by (intro zdiv_mono1) simp_all
  then have k24: "k \<le> 24" by (simp add: k_def)
  have s24: "k = 24 \<longrightarrow> s \<le> 1459" using r(2) rs by auto
  have x: "x = 36524 * b + 1461 * k + s" using xr rs by simp
  from year_of_era_params [OF x b0 b3 k0 k24 s s24 lt] show ?thesis .
qed

lemma days_from_civil_civil: "(case civil z of (y, m, d) \<Rightarrow> days_from_civil y m d) = z"
proof -
  define era where "era = (z + 719468) div 146097"
  define doe where "doe = z + 719468 - era * 146097"
  define yoe where "yoe = (doe - doe div 1460 + doe div 36524 - doe div 146096) div 365"
  define doy where "doy = doe - (365 * yoe + yoe div 4 - yoe div 100)"
  define mp where "mp = (5 * doy + 2) div 153"
  define d where "d = doy - (153 * mp + 2) div 5 + 1"
  define m where "m = (if mp < 10 then mp + 3 else mp - 9)"
  have "doe = (z + 719468) mod 146097"
    unfolding doe_def era_def by (simp add: minus_div_mult_eq_mod)
  then have doe: "0 \<le> doe" "doe \<le> 146096" by simp_all
  from year_of_era [OF doe] have yoe: "0 \<le> yoe" "yoe \<le> 399" and doy: "0 \<le> doy" "doy \<le> 365"
    unfolding yoe_def doy_def by simp_all
  have mp0: "0 \<le> mp" using doy(1) by (simp add: mp_def)
  have "(5 * doy + 2) div 153 \<le> 1827 div 153" using doy(2) by (intro zdiv_mono1) simp_all
  then have mp11: "mp \<le> 11" by (simp add: mp_def)
  have c: "civil z = (if m \<le> 2 then yoe + era * 400 + 1 else yoe + era * 400, m, d)"
    unfolding civil_def Let_def era_def [symmetric] doe_def [symmetric] yoe_def [symmetric]
      doy_def [symmetric] mp_def [symmetric] d_def [symmetric] m_def [symmetric] ..
  have y1: "(if m \<le> 2 then (if m \<le> 2 then yoe + era * 400 + 1 else yoe + era * 400) - 1
             else (if m \<le> 2 then yoe + era * 400 + 1 else yoe + era * 400)) = yoe + era * 400"
    by simp
  have e1: "(yoe + era * 400) div 400 = era" using yoe by (intro div_eqI) simp_all
  have m1: "(if m > 2 then m - 3 else m + 9) = mp" using mp0 mp11 by (simp add: m_def)
  have "days_from_civil (if m \<le> 2 then yoe + era * 400 + 1 else yoe + era * 400) m d
          = era * 146097 + (yoe * 365 + yoe div 4 - yoe div 100 + ((153 * mp + 2) div 5 + d - 1))
            - 719468"
    unfolding days_from_civil_def Let_def y1 e1 m1 by simp
  also have "\<dots> = z" by (simp add: d_def doy_def doe_def)
  finally show ?thesis by (simp add: c)
qed

lemma base_datetime_floor:
  "base_datetime off t = (abs_seconds off t div 86400 * 86400 - off) * ns_per_second"
proof -
  obtain y m d where c: "civil (abs_seconds off t div 86400) = (y, m, d)"
    by (cases "civil (abs_seconds off t div 86400)") auto
  from days_from_civil_civil [of "abs_seconds off t div 86400"]
  have "days_from_civil y m d = abs_seconds off t div 86400" by (simp add: c)
  then show ?thesis
    by (simp add: base_datetime_def Date_def Year_def Month_def Day_def c)
qed

lemma base_datetime_bounds:
  "base_datetime off t \<le> t \<and> t < base_datetime off t + ns_per_day"
proof -
  define q where "q = t div 1000000000"
  define s where "s = q + off"
  have q: "q * 1000000000 \<le> t" "t < (q + 1) * 1000000000"
    unfolding q_def by (simp_all add: algebra_simps)
  have d: "s div 86400 * 86400 \<le> s" "s < s div 86400 * 86400 + 86400"
    by (simp_all add: algebra_simps)
  have m: "base_datetime off t = (s div 86400 * 86400 - off) * 1000000000"
    by (simp add: base_datetime_floor abs_seconds_def ns_per_second_def s_def q_def)
  have "s div 86400 * 86400 - off \<le> q" using d(1) by (simp add: s_def)
  then have lo: "(s div 86400 * 86400 - off) * 1000000000 \<le> q * 1000000000" by simp
  have "q + 1 \<le> s div 86400 * 86400 - off + 86400" using d(2) by (simp add: s_def)
  then have hi: "(q + 1) * 1000000000 \<le> (s div 86400 * 86400 - off + 86400) * 1000000000"
    by simp
  show ?thesis using lo hi q unfolding m ns_per_day_def ns_per_second_def
    by (simp add: algebra_simps)
qed

text \<open>
  What the loop of \<^verbatim>\<open>processName\<close> computes: the last boundary strictly before the
  current time, and midnight when there is none.
\<close>

lemma rotation_bucket_spec:
  assumes "0 < rotation_window l"
  shows "\<exists>k. find_rotation (rotation_window l) now (base_datetime off now)
               = Some (base_datetime off now + int k * rotation_window l)
             \<and> base_datetime off now + int k * rotation_window l \<le> now
             \<and> now \<le> base_datetime off now + (int k + 1) * rotation_window l
             \<and> (k = 0 \<or> base_datetime off now + int k * rotation_window l < now)"
proof -
  let ?m = "base_datetime off now" and ?d = "rotation_window l"
  from find_rotation_spec [OF assms, of now ?m] obtain k where
    k: "find_rotation ?d now ?m = Some (?m + int k * ?d)"
       "k = 0 \<or> ?m + int k * ?d < now"
       "?m + int k * ?d < now \<longrightarrow> now \<le> ?m + (int k + 1) * ?d"
       "?m + ?d < now \<longrightarrow> k \<noteq> 0"
    by blast
  have le: "?m \<le> now" using base_datetime_bounds by blast
  have a: "?m + int k * ?d \<le> now" using k(2) le by auto
  have b: "now \<le> ?m + (int k + 1) * ?d"
  proof (cases "?m + int k * ?d < now")
    case True then show ?thesis using k(3) by blast
  next
    case False
    then have "now = ?m + int k * ?d" using a by simp
    then show ?thesis using assms by (simp add: algebra_simps)
  qed
  show ?thesis using k(1,2) a b by blast
qed

section \<open>Opening and writing\<close>

lemma get_max_size_update [simp]:
  "get_max_size e (l\<lparr>lfile := f\<rparr>) = get_max_size e l"
  "get_max_size e (l\<lparr>lsize := s\<rparr>) = get_max_size e l"
  by (simp_all add: get_max_size_def)

lemma get_filename_update [simp]:
  "get_filename e (l\<lparr>lfile := f\<rparr>) = get_filename e l"
  "get_filename e (l\<lparr>lsize := s\<rparr>) = get_filename e l"
  by (simp_all add: get_filename_def)

lemma rotation_window_update [simp]:
  "rotation_window (l\<lparr>lfile := f\<rparr>) = rotation_window l"
  "rotation_window (l\<lparr>lsize := s\<rparr>) = rotation_window l"
  "get_rotation_time (l\<lparr>lfile := f\<rparr>) = get_rotation_time l"
  "get_rotation_time (l\<lparr>lsize := s\<rparr>) = get_rotation_time l"
  by (simp_all add: get_rotation_time_def rotation_window_def)

lemma timestamp_of_update [simp]:
  "timestamp_of e (l\<lparr>lfile := f\<rparr>) = timestamp_of e l"
  "timestamp_of e (l\<lparr>lsize := s\<rparr>) = timestamp_of e l"
  by (simp_all add: timestamp_of_def fun_eq_iff Let_def)

lemma processName_update [simp]:
  "processName e (l\<lparr>lfile := f\<rparr>) = processName e l"
  "processName e (l\<lparr>lsize := s\<rparr>) = processName e l"
  by (auto simp: processName_def fun_eq_iff Let_def split: option.splits stat.splits)

lemma open_append_size:
  assumes "open_append w name = Some f" "os_Stat w name = FileInfo sz"
  shows "sz = length (content w (ino f)) \<and> append_mode f"
  using assms
  by (auto simp: open_append_def os_Stat_def split: if_splits option.splits entry.splits)

lemma open_create_empty:
  assumes "open_create w name = Some (f, w1)"
  shows "content w1 (ino f) = [] \<and> \<not> append_mode f \<and> offset f = 0 \<and> disk_room w1 = disk_room w"
  using assms
  by (auto simp: open_create_def split: if_splits option.splits entry.splits)

lemma open_named_ok:
  assumes "open_named w name = Inr (f, w1)"
  shows "(append_mode f \<or> (offset f = 0 \<and> content w1 (ino f) = [])) \<and> disk_room w1 = disk_room w"
proof (cases "os_Stat w name")
  case (FileInfo sz)
  with assms obtain g where "open_append w name = Some g" "f = g" "w1 = w"
    by (auto simp: open_named_def split: option.splits)
  then show ?thesis using open_append_size [OF _ FileInfo] by auto
next
  case NotExist
  with assms have "open_create w name = Some (f, w1)"
    by (auto simp: open_named_def split: option.splits)
  then show ?thesis using open_create_empty by blast
next
  case StatError
  with assms have "open_create w name = Some (f, w1)"
    by (auto simp: open_named_def split: option.splits)
  then show ?thesis using open_create_empty by blast
qed

lemma relink_content:
  assumes "relink w name dest = (None, w2)"
  shows "content w2 = content w \<and> disk_room w2 = disk_room w"
  using assms by (auto simp: relink_def Let_def split: if_splits)

lemma openNew_handle_ok:
  assumes "openNew e l w now = Some (None, l1, w1)"
  shows "handle_ok l1 w1 \<and> disk_room w1 = disk_room w"
proof -
  from assms obtain name f wa where
    on: "open_named w name = Inr (f, wa)"
    and rl: "relink wa name (get_filename e l) = (None, w1)"
    and l1: "l1 = l\<lparr>lfile := Some f, lsize := int (length (content w1 (ino f)))\<rparr>"
    by (auto simp: openNew_def split: if_splits option.splits sum.splits prod.splits)
  from open_named_ok [OF on] relink_content [OF rl] show ?thesis
    by (auto simp: handle_ok_def l1)
qed

lemma close_world: "close l w = (err, l1, w1) \<Longrightarrow> w1 = w"
  by (auto simp: close_def split: option.splits)

lemma rotate_handle_ok:
  assumes "rotate_logger e l w now = Some (None, l1, w1)"
  shows "handle_ok l1 w1 \<and> disk_room w1 = disk_room w"
proof -
  obtain err la wa where c: "close l (w\<lparr>rotations := rotations w + 1\<rparr>) = (err, la, wa)"
    by (cases "close l (w\<lparr>rotations := rotations w + 1\<rparr>)") auto
  from close_world [OF c] have wa: "wa = w\<lparr>rotations := rotations w + 1\<rparr>" .
  from assms c have "openNew e la wa now = Some (None, l1, w1)"
    by (cases err) (auto simp: rotate_logger_def)
  from openNew_handle_ok [OF this] show ?thesis by (simp add: wa)
qed

lemma openExistingOrNew_handle_ok:
  assumes "openExistingOrNew e l w now writeLen = Some (None, l1, w1)"
  shows "handle_ok l1 w1 \<and> disk_room w1 = disk_room w"
proof -
  from assms obtain name where pn: "processName e l w now writeLen = Some (Inr name)"
    by (auto simp: openExistingOrNew_def split: option.splits sum.splits)
  show ?thesis
  proof (cases "os_Stat w name")
    case NotExist
    with assms pn have "openNew e l w now = Some (None, l1, w1)"
      by (simp add: openExistingOrNew_def)
    then show ?thesis by (rule openNew_handle_ok)
  next
    case StatError
    with assms pn show ?thesis by (simp add: openExistingOrNew_def)
  next
    case (FileInfo sz)
    show ?thesis
    proof (cases "int sz + writeLen \<ge> get_max_size e l")
      case True
      with assms pn FileInfo have "rotate_logger e l w now = Some (None, l1, w1)"
        by (simp add: openExistingOrNew_def)
      then show ?thesis by (rule rotate_handle_ok)
    next
      case False
      show ?thesis
      proof (cases "open_append w name")
        case None
        with assms pn FileInfo False have "openNew e l w now = Some (None, l1, w1)"
          by (simp add: openExistingOrNew_def)
        then show ?thesis by (rule openNew_handle_ok)
      next
        case (Some f)
        with assms pn FileInfo False have "l1 = l\<lparr>lfile := Some f, lsize := int sz\<rparr>" "w1 = w"
          by (simp_all add: openExistingOrNew_def)
        then show ?thesis using open_append_size [OF Some FileInfo]
          by (simp add: handle_ok_def)
      qed
    qed
  qed
qed

lemma bufio_no_limit:
  assumes "handle_ok l w" "disk_room w = None"
    and "bufio_Write_Flush w (lfile l) p = (n, err, f', w')"
  shows "n = length p \<and> err = None
         \<and> (\<exists>f g. lfile l = Some f \<and> f' = Some g \<and> ino g = ino f
               \<and> content w' = (content w)(ino f := content w (ino f) @ p))
         \<and> disk_room w' = None"
proof -
  from assms(1) obtain f where f: "lfile l = Some f"
    "append_mode f \<or> (offset f = 0 \<and> content w (ino f) = [])"
    by (auto simp: handle_ok_def)
  obtain n0 e0 g w0 where fw: "file_write w f p = (n0, e0, g, w0)"
    by (cases "file_write w f p") auto
  from fw assms(2) f(2) have r: "n0 = length p" "e0 = None" "ino g = ino f"
    "content w0 = (content w)(ino f := content w (ino f) @ p)" "disk_room w0 = None"
    by (auto simp: file_write_def Let_def)
  from assms(3) f(1) fw have "n = (if length p > defaultBufSize then n0 else length p)"
    "err = (if length p > defaultBufSize then e0 else None)" "f' = Some g" "w' = w0"
    by (auto split: if_splits simp: bufio_Write_Flush_def)
  then show ?thesis using r f(1) by auto
qed

lemma Write_size_is_file_size:
  assumes "Write e l w now p = Some (n, None, l', w')" "disk_room w = None"
  shows "\<exists>f. lfile l' = Some f \<and> lsize l' = int (length (content w' (ino f)))"
proof -
  let ?wl = "int (length p)"
  from assms(1) have le: "\<not> ?wl > get_max_size e l"
    by (auto simp: Write_def)
  from assms(1) le obtain l1 w1 where
    o: "openExistingOrNew e l w now ?wl = Some (None, l1, w1)"
    by (auto simp: Write_def Let_def split: option.splits)
  from openExistingOrNew_handle_ok [OF o] assms(2)
  have h1: "handle_ok l1 w1" "disk_room w1 = None" by auto
  define r where "r = (if lsize l1 + ?wl > get_max_size e l1 then rotate_logger e l1 w1 now
                       else Some (None, l1, w1))"
  from assms(1) le o obtain l2 w2 where r2: "r = Some (None, l2, w2)"
    by (auto simp: Write_def Let_def r_def split: option.splits if_splits)
  have h2c: "handle_ok l2 w2 \<and> disk_room w2 = None"
  proof (cases "lsize l1 + ?wl > get_max_size e l1")
    case True
    with r2 have "rotate_logger e l1 w1 now = Some (None, l2, w2)" by (simp add: r_def)
    from rotate_handle_ok [OF this] h1 show ?thesis by simp
  next
    case False
    with r2 h1 show ?thesis by (simp add: r_def)
  qed
  then have h2: "handle_ok l2 w2" "disk_room w2 = None" by simp_all
  obtain n3 e3 f3 w3 where b: "bufio_Write_Flush w2 (lfile l2) p = (n3, e3, f3, w3)"
    by (cases "bufio_Write_Flush w2 (lfile l2) p") auto
  from assms(1) le o r2 b have res: "l' = l2\<lparr>lfile := f3, lsize := lsize l2 + int n3\<rparr>" "w' = w3"
    by (auto simp: Write_def Let_def r_def split: if_splits)
  from bufio_no_limit [OF h2 b] obtain f g where
    "n3 = length p" "lfile l2 = Some f" "f3 = Some g" "ino g = ino f"
    "content w3 = (content w2)(ino f := content w2 (ino f) @ p)"
    by blast
  moreover from h2(1) \<open>lfile l2 = Some f\<close> have "lsize l2 = int (length (content w2 (ino f)))"
    by (auto simp: handle_ok_def)
  ultimately show ?thesis by (simp add: res)
qed

text \<open>What \<^verbatim>\<open>openNew\<close>, and so \<^verbatim>\<open>Rotate\<close>, does to the destination when it succeeds.\<close>

lemma openNew_links_destination:
  assumes "openNew e l w now = Some (None, l1, w1)"
  shows "\<exists>name. processName e l w now 0 = Some (Inr name)
           \<and> entries w1 (get_filename e l) = Some (Symlink name)"
proof -
  from assms obtain name wa where
    pn: "processName e l w now 0 = Some (Inr name)"
    and rl: "relink wa name (get_filename e l) = (None, w1)"
    by (auto simp: openNew_def split: if_splits option.splits sum.splits prod.splits)
  from rl have "entries w1 (get_filename e l) = Some (Symlink name)"
    by (auto simp: relink_def Let_def split: if_splits)
  with pn show ?thesis by blast
qed

lemma Rotate_links_destination:
  assumes "Rotate e l w now = Some (None, l1, w1)"
  shows "\<exists>name. entries w1 (get_filename e l) = Some (Symlink name)
           \<and> Base name \<noteq> Base (get_filename e l)"
proof -
  obtain err la wa where c: "close l (w\<lparr>rotations := rotations w + 1\<rparr>) = (err, la, wa)"
    by (cases "close l (w\<lparr>rotations := rotations w + 1\<rparr>)") auto
  then have la: "get_filename e la = get_filename e l"
    by (auto simp: close_def split: option.splits)
  from assms c have "openNew e la wa now = Some (None, l1, w1)"
    by (cases err) (auto simp: Rotate_def rotate_logger_def)
  from openNew_links_destination [OF this] obtain name where
    n: "processName e la wa now 0 = Some (Inr name)"
       "entries w1 (get_filename e la) = Some (Symlink name)"
    by blast
  from processName_form [OF n(1)] obtain ts middle where
    ts: "timestamp_of e la now = Some ts"
    and mid: "middle = ts \<or> (\<exists>j. middle = ts @ ''_'' @ digits j)"
    and name: "name = Join2 (Dir (get_filename e la))
                  (take (length (Base (get_filename e la)) - length (Ext (Base (get_filename e la))))
                        (Base (get_filename e la))
                   @ ''-'' @ middle @ Ext (Base (get_filename e la)))"
    by (elim exE conjE)
  have "\<forall>x\<in>set middle. \<not> IsPathSeparator x"
    using timestamp_of_no_sep [OF ts] mid by (rule middle_no_sep)
  from backup_Base_differs [OF this refl refl refl, of "get_filename e la"]
  have "Base name \<noteq> Base (get_filename e la)" unfolding name .
  then show ?thesis using n(2) la by auto
qed

lemma candidate_name_update [simp]:
  "candidate_name e (l\<lparr>lfile := f\<rparr>) = candidate_name e l"
  "candidate_name e (l\<lparr>lsize := s\<rparr>) = candidate_name e l"
  by (simp_all add: candidate_name_def fun_eq_iff)








lemma processName_candidate:
  assumes "timestamp_of e l now = Some ts"
    and "os_Stat w (candidate_name e l ts) = NotExist
         \<or> (\<exists>sz. os_Stat w (candidate_name e l ts) = FileInfo sz
                 \<and> int sz + wl \<le> get_max_size e l)"
  shows "processName e l w now wl = Some (Inr (candidate_name e l ts))"
  using assms by (auto simp: processName_def candidate_name_def Let_def)
















section \<open>The claims\<close>




text \<open>
  Claim C2. \<^verbatim>\<open>openNew\<close> removes and recreates the destination link;
  the branch of \<^verbatim>\<open>openExistingOrNew\<close> that opens an existing backup file for append
  does not touch it. In a directory that holds the backup file of the window and no
  link, \<^verbatim>\<open>Write\<close> succeeds, appends to the backup file, and leaves the destination path
  without any entry.
\<close>

theorem Write_append_leaves_destination:
  "get_filename test_env test_logger = ''/d/foobar.log''
   \<and> observe (Write test_env test_logger (backup_world ''boo!'') fakeCurrentTime ''x'')
             [''/d/foobar-20091117_200000.log'', ''/d/foobar.log'']
       = Some (1, None, 5, [(Some (Regular 0), Some ''boo!x''), (None, None)])"
  by code_simp

text \<open>
  The link that \<^verbatim>\<open>openNew\<close> creates holds the backup name as \<^verbatim>\<open>filepath.Join\<close> built it.
  For a relative destination with a directory part that name is relative to the working
  directory, while the system resolves it from the directory of the link: the
  destination then does not resolve to the file that was written.
\<close>

lemma relative_destination_dangles:
  "observe (Write test_env (test_logger\<lparr>Filename := ''logs/foobar.log''\<rparr>) empty_world
                  fakeCurrentTime ''boo!'')
           [''logs/foobar-20091117_200000.log'', ''logs/foobar.log'']
     = Some (4, None, 4,
             [(Some (Regular 0), Some ''boo!''),
              (Some (Symlink ''logs/foobar-20091117_200000.log''), None)])"
  by code_simp

text \<open>
  Claim C3. The window loop advances while the next boundary is before the current
  time, so at a time that is itself a boundary it stops one boundary earlier, where the
  claim has the bucket equal to that time. At 21:00:00.000000000, the 21st sixty-minute boundary of the
  day, the bucket is 20:00:00 and not 21:00:00, and one nanosecond later, in the same
  window, the bucket and the backup filename are different ones.
\<close>

theorem bucket_at_exact_boundary:
  "base_datetime 0 boundary_time + 21 * rotation_window test_logger = boundary_time
   \<and> timestamp_of test_env test_logger boundary_time = Some ''20091117_200000''
   \<and> Format 0 boundary_time = ''20091117_210000''
   \<and> timestamp_of test_env test_logger (boundary_time + 1) = Some ''20091117_210000''
   \<and> processName test_env test_logger empty_world boundary_time 4
       = Some (Inr ''/d/foobar-20091117_200000.log'')
   \<and> processName test_env test_logger empty_world (boundary_time + 1) 4
       = Some (Inr ''/d/foobar-20091117_210000.log'')"
  by code_simp

text \<open>
  Claim C4 says that the search for an alternate name starts when the size of the
  candidate file plus the pending length meets or exceeds the maximum size. In the
  code the search starts only when the sum exceeds it: with a candidate file of 6
  bytes, a pending write of 4 and a maximum of 10, \<^verbatim>\<open>processName\<close> returns the
  candidate name, although the alternate with index 2 does not exist.
\<close>

theorem processName_meets_max_counterexample:
  "os_Stat (backup_world ''boooo!'') ''/d/foobar-20091117_200000.log'' = FileInfo 6
   \<and> int 6 + 4 \<ge> get_max_size test_env test_logger
   \<and> os_Stat (backup_world ''boooo!'') ''/d/foobar-20091117_200000_2.log'' = NotExist
   \<and> processName test_env test_logger (backup_world ''boooo!'') fakeCurrentTime 4
       = Some (Inr ''/d/foobar-20091117_200000.log'')"
  by code_simp

text \<open>
  Claim C4, amended. When the rotation window is positive the window loop ends with a
  timestamp \<open>ts\<close>, and then: if the candidate \<^verbatim>\<open><stem>-<ts><ext>\<close> does not exist, or exists
  with its size plus the pending length at most the maximum size, \<^verbatim>\<open>processName\<close>
  returns the candidate; if it exists and its size plus the pending length exceeds the
  maximum size, \<^verbatim>\<open>processName\<close> returns \<^verbatim>\<open><stem>-<ts>_<n><ext>\<close> for the first \<open>n \<ge> 2\<close> whose
  file does not exist or exists with its size plus the pending length at most the
  maximum size.
\<close>

theorem processName_search:
  assumes "0 < rotation_window l"
  shows "\<exists>ts. timestamp_of e l now = Some ts
       \<and> ((os_Stat w (candidate_name e l ts) = NotExist
            \<or> (\<exists>sz. os_Stat w (candidate_name e l ts) = FileInfo sz
                    \<and> int sz + write_length \<le> get_max_size e l))
          \<longrightarrow> processName e l w now write_length = Some (Inr (candidate_name e l ts)))
       \<and> ((\<exists>sz. os_Stat w (candidate_name e l ts) = FileInfo sz
                 \<and> int sz + write_length > get_max_size e l)
           \<and> 2 \<le> n
           \<and> (\<forall>k. 2 \<le> k \<and> k < n \<longrightarrow>
                  (\<exists>sz. os_Stat w (alternate_name e l ts k) = FileInfo sz
                        \<and> int sz + write_length > get_max_size e l))
           \<and> (os_Stat w (alternate_name e l ts n) = NotExist
                \<or> (\<exists>sz. os_Stat w (alternate_name e l ts n) = FileInfo sz
                        \<and> int sz + write_length \<le> get_max_size e l))
          \<longrightarrow> processName e l w now write_length = Some (Inr (alternate_name e l ts n)))"
proof -
  from timestamp_of_returns [OF assms] obtain ts where ts: "timestamp_of e l now = Some ts" ..
  let ?fn = "Base (get_filename e l)"
  let ?dir = "Dir (get_filename e l)"
  let ?prefix = "take (length ?fn - length (Ext ?fn)) ?fn"
  have alt: "alternate_name e l ts k = indexed_name ?dir ?prefix ts k (Ext ?fn)" for k
    by (simp add: alternate_name_def Let_def)
  have first: "processName e l w now write_length = Some (Inr (candidate_name e l ts))"
    if "os_Stat w (candidate_name e l ts) = NotExist
          \<or> (\<exists>sz. os_Stat w (candidate_name e l ts) = FileInfo sz
                  \<and> int sz + write_length \<le> get_max_size e l)"
    using ts that by (rule processName_candidate)
  have second: "processName e l w now write_length = Some (Inr (alternate_name e l ts n))"
    if a: "(\<exists>sz. os_Stat w (candidate_name e l ts) = FileInfo sz
                 \<and> int sz + write_length > get_max_size e l)
           \<and> 2 \<le> n
           \<and> (\<forall>k. 2 \<le> k \<and> k < n \<longrightarrow>
                  (\<exists>sz. os_Stat w (alternate_name e l ts k) = FileInfo sz
                        \<and> int sz + write_length > get_max_size e l))
           \<and> (os_Stat w (alternate_name e l ts n) = NotExist
                \<or> (\<exists>sz. os_Stat w (alternate_name e l ts n) = FileInfo sz
                        \<and> int sz + write_length \<le> get_max_size e l))"
  proof -
    from a obtain sz where sz: "os_Stat w (candidate_name e l ts) = FileInfo sz"
      "int sz + write_length > get_max_size e l" by blast
    have "find_name w (get_max_size e l) ?dir ?prefix ts (Ext ?fn) write_length 2
            = Some (Inr (indexed_name ?dir ?prefix ts n (Ext ?fn)))"
      using a by (intro find_name_first) (simp_all add: alt [symmetric])
    then show ?thesis
      using ts sz by (simp add: processName_def candidate_name_def Let_def alt)
  qed
  show ?thesis using ts first second by blast
qed

theorem processName_search_witness:
  "0 < rotation_window test_logger
   \<and> timestamp_of test_env test_logger fakeCurrentTime = Some ''20091117_200000''
   \<and> os_Stat empty_world (candidate_name test_env test_logger ''20091117_200000'') = NotExist
   \<and> processName test_env test_logger empty_world fakeCurrentTime 4
       = Some (Inr (candidate_name test_env test_logger ''20091117_200000''))
   \<and> os_Stat (crowded_world ''boooooo!'' ''fooooooo!'')
        (candidate_name test_env test_logger ''20091117_200000'') = FileInfo 8
   \<and> int 8 + 4 > get_max_size test_env test_logger
   \<and> os_Stat (crowded_world ''boooooo!'' ''fooooooo!'')
        (alternate_name test_env test_logger ''20091117_200000'' 2) = FileInfo 9
   \<and> int 9 + 4 > get_max_size test_env test_logger
   \<and> os_Stat (crowded_world ''boooooo!'' ''fooooooo!'')
        (alternate_name test_env test_logger ''20091117_200000'' 3) = NotExist
   \<and> processName test_env test_logger (crowded_world ''boooooo!'' ''fooooooo!'') fakeCurrentTime 4
       = Some (Inr (alternate_name test_env test_logger ''20091117_200000'' 3))
   \<and> alternate_name test_env test_logger ''20091117_200000'' 3
       = ''/d/foobar-20091117_200000_3.log''"
proof -
  let ?W = "crowded_world ''boooooo!'' ''fooooooo!''"
  let ?c = "candidate_name test_env test_logger ''20091117_200000''"
  let ?a = "alternate_name test_env test_logger ''20091117_200000''"
  have pos: "0 < rotation_window test_logger" by code_simp
  have ts: "timestamp_of test_env test_logger fakeCurrentTime = Some ''20091117_200000''"
    by code_simp
  have s0: "os_Stat empty_world ?c = NotExist" by code_simp
  have s1: "os_Stat ?W ?c = FileInfo 8" by code_simp
  have m1: "int 8 + 4 > get_max_size test_env test_logger" by code_simp
  have s2: "os_Stat ?W (?a 2) = FileInfo 9" by code_simp
  have m2: "int 9 + 4 > get_max_size test_env test_logger" by code_simp
  have s3: "os_Stat ?W (?a 3) = NotExist" by code_simp
  have nm: "?a 3 = ''/d/foobar-20091117_200000_3.log''" by code_simp
  have full: "\<forall>k. 2 \<le> k \<and> k < (3::nat) \<longrightarrow>
                (\<exists>sz. os_Stat ?W (?a k) = FileInfo sz
                      \<and> int sz + 4 > get_max_size test_env test_logger)"
  proof (intro allI impI)
    fix k :: nat assume "2 \<le> k \<and> k < 3"
    then have "k = 2" by simp
    then show "\<exists>sz. os_Stat ?W (?a k) = FileInfo sz
                 \<and> int sz + 4 > get_max_size test_env test_logger"
      using s2 m2 by blast
  qed
  have pre: "(\<exists>sz. os_Stat ?W ?c = FileInfo sz \<and> int sz + 4 > get_max_size test_env test_logger)
           \<and> 2 \<le> (3::nat)
           \<and> (\<forall>k. 2 \<le> k \<and> k < (3::nat) \<longrightarrow>
                  (\<exists>sz. os_Stat ?W (?a k) = FileInfo sz
                        \<and> int sz + 4 > get_max_size test_env test_logger))
           \<and> (os_Stat ?W (?a 3) = NotExist
                \<or> (\<exists>sz. os_Stat ?W (?a 3) = FileInfo sz
                        \<and> int sz + 4 \<le> get_max_size test_env test_logger))"
    using s1 m1 full s3 by (intro conjI) (blast, simp, blast, blast)
  from processName_search [OF pos, of test_env fakeCurrentTime empty_world 4 3]
  have r0: "processName test_env test_logger empty_world fakeCurrentTime 4 = Some (Inr ?c)"
    using ts s0 by auto
  from processName_search [OF pos, of test_env fakeCurrentTime ?W 4 3]
  have r1: "processName test_env test_logger ?W fakeCurrentTime 4 = Some (Inr (?a 3))"
    using ts pre by auto
  show ?thesis using pos ts s0 r0 s1 m1 s2 m2 s3 r1 nm by blast
qed

text \<open>
  Claim C5. For every byte sequence longer than the maximum size in bytes, \<^verbatim>\<open>Write\<close>
  returns the count 0 and an error, and leaves the Logger and the file system as they
  were: no state is changed and no file is created.
\<close>

theorem Write_too_long:
  assumes "int (length p) > get_max_size e l"
  shows "Write e l w now p
           = Some (0, Some (WriteTooLong (int (length p)) (get_max_size e l)), l, w)"
  using assms by (simp add: Write_def)

theorem Write_too_long_witness:
  "int (length ''booooooooooooooo!'') > get_max_size test_env (test_logger\<lparr>MaxSize := 5\<rparr>)
   \<and> Write test_env (test_logger\<lparr>MaxSize := 5\<rparr>) empty_world fakeCurrentTime ''booooooooooooooo!''
       = Some (0, Some (WriteTooLong (int (length ''booooooooooooooo!''))
                          (get_max_size test_env (test_logger\<lparr>MaxSize := 5\<rparr>))),
               test_logger\<lparr>MaxSize := 5\<rparr>, empty_world)"
proof -
  have h: "int (length ''booooooooooooooo!'') > get_max_size test_env (test_logger\<lparr>MaxSize := 5\<rparr>)"
    by (simp add: get_max_size_def test_env_def test_logger_def wrap64_def)
  from Write_too_long [OF h] h show ?thesis by blast
qed

text \<open>
  Claim C6 says that the size counter is the number of bytes written to the handle
  since it was opened. A Logger without a handle that writes one byte into a directory
  holding a backup file of three bytes opens that file, writes one byte, and has a
  size counter of 4.
\<close>

theorem size_counter_counterexample:
  "lfile test_logger = None
   \<and> observe (Write test_env test_logger (backup_world ''boo'') fakeCurrentTime ''x'')
             [''/d/foobar-20091117_200000.log'']
       = Some (1, None, 4, [(Some (Regular 0), Some ''boox'')])"
  by code_simp

text \<open>
  Claim C6, amended. The size counter is the size of the open file: after \<^verbatim>\<open>openNew\<close>
  or \<^verbatim>\<open>openExistingOrNew\<close> returns without error the Logger holds a handle and its size
  counter equals the length of that file, bytes that were there before the handle was
  opened included; and after a \<^verbatim>\<open>Write\<close> that returns without error on a device
  without a limit it holds a handle and its size counter again equals the length of
  that file.
\<close>

theorem size_counter_is_file_length:
  "(openNew e l w now = Some (None, l1, w1)
      \<longrightarrow> (\<exists>f. lfile l1 = Some f \<and> lsize l1 = int (length (content w1 (ino f)))))
   \<and> (openExistingOrNew e l w now writeLen = Some (None, l2, w2)
      \<longrightarrow> (\<exists>f. lfile l2 = Some f \<and> lsize l2 = int (length (content w2 (ino f)))))
   \<and> (disk_room w = None \<and> Write e l w now p = Some (n, None, l3, w3)
      \<longrightarrow> (\<exists>f. lfile l3 = Some f \<and> lsize l3 = int (length (content w3 (ino f)))))"
proof (intro conjI impI)
  assume "openNew e l w now = Some (None, l1, w1)"
  from openNew_handle_ok [OF this]
  show "\<exists>f. lfile l1 = Some f \<and> lsize l1 = int (length (content w1 (ino f)))"
    by (auto simp: handle_ok_def)
next
  assume "openExistingOrNew e l w now writeLen = Some (None, l2, w2)"
  from openExistingOrNew_handle_ok [OF this]
  show "\<exists>f. lfile l2 = Some f \<and> lsize l2 = int (length (content w2 (ino f)))"
    by (auto simp: handle_ok_def)
next
  assume "disk_room w = None \<and> Write e l w now p = Some (n, None, l3, w3)"
  then show "\<exists>f. lfile l3 = Some f \<and> lsize l3 = int (length (content w3 (ino f)))"
    using Write_size_is_file_size by blast
qed

theorem size_counter_is_file_length_witness:
  "\<exists>l1 w1 l2 w2 l3 w3.
     openNew test_env test_logger (backup_world ''boo'') fakeCurrentTime = Some (None, l1, w1)
     \<and> (\<exists>f. lfile l1 = Some f \<and> lsize l1 = int (length (content w1 (ino f))))
     \<and> openExistingOrNew test_env test_logger (backup_world ''boo'') fakeCurrentTime 1
         = Some (None, l2, w2)
     \<and> (\<exists>f. lfile l2 = Some f \<and> lsize l2 = int (length (content w2 (ino f))))
     \<and> disk_room (backup_world ''boo'') = None
     \<and> Write test_env test_logger (backup_world ''boo'') fakeCurrentTime ''x''
         = Some (1, None, l3, w3)
     \<and> (\<exists>f. lfile l3 = Some f \<and> lsize l3 = int (length (content w3 (ino f))))
     \<and> lsize l3 = 4"
proof -
  let ?W = "backup_world ''boo''"
  have "map_option fst (openNew test_env test_logger ?W fakeCurrentTime) = Some None"
    by code_simp
  then obtain l1 w1 where
    a: "openNew test_env test_logger ?W fakeCurrentTime = Some (None, l1, w1)"
    by fastforce
  have "map_option fst (openExistingOrNew test_env test_logger ?W fakeCurrentTime 1) = Some None"
    by code_simp
  then obtain l2 w2 where
    b: "openExistingOrNew test_env test_logger ?W fakeCurrentTime 1 = Some (None, l2, w2)"
    by fastforce
  have d: "disk_room ?W = None" by code_simp
  have "observe (Write test_env test_logger ?W fakeCurrentTime ''x'') [] = Some (1, None, 4, [])"
    by code_simp
  then obtain l3 w3 where
    c: "Write test_env test_logger ?W fakeCurrentTime ''x'' = Some (1, None, l3, w3)"
      "lsize l3 = 4"
    by (auto simp: observe_def)
  from size_counter_is_file_length
         [of test_env test_logger ?W fakeCurrentTime l1 w1 1 l2 w2 "''x''" 1 l3 w3]
  show ?thesis using a b c d by blast
qed

text \<open>
  Claim C7. A write of at most 4096 bytes is only copied into the buffer by
  \<^verbatim>\<open>w.Write\<close>, which returns its length and no error; the bytes reach the file in
  \<^verbatim>\<open>w.Flush()\<close>, whose result \<^verbatim>\<open>Write\<close> does not look at. On a device that accepts no
  byte, \<^verbatim>\<open>Write\<close> of four bytes returns 4 and no error and adds 4 to the size counter,
  while the file stays empty.
\<close>

theorem Write_drops_flush_error:
  "observe (Write test_env test_logger (empty_world\<lparr>disk_room := Some 0\<rparr>) fakeCurrentTime ''boo!'')
           [''/d/foobar-20091117_200000.log'']
     = Some (4, None, 4, [(Some (Regular 0), Some [])])"
  by code_simp

text \<open>
  Claim C8. Every backup filename that \<^verbatim>\<open>processName\<close> produces, for every configured
  filename, clock reading, file system and pending length, is the candidate
  \<^verbatim>\<open><stem>-<timestamp><ext>\<close> or an alternate \<^verbatim>\<open><stem>-<timestamp>_<n><ext>\<close> in the directory
  of the destination, and differs from the destination path: its last element holds the
  inserted \<^verbatim>\<open>-<timestamp>\<close> and so is not the last element of the destination. The
  destination link is therefore never made to point at its own path.
\<close>

theorem processName_not_destination:
  assumes "processName e l w now write_length = Some (Inr name)"
  shows "name \<noteq> get_filename e l
         \<and> Base name \<noteq> Base (get_filename e l)
         \<and> (\<exists>ts. timestamp_of e l now = Some ts
                \<and> (name = candidate_name e l ts \<or> (\<exists>n. name = alternate_name e l ts n)))"
proof -
  let ?fn = "Base (get_filename e l)"
  from processName_form [OF assms] obtain ts middle where
    ts: "timestamp_of e l now = Some ts"
    and mid: "middle = ts \<or> (\<exists>j. middle = ts @ ''_'' @ digits j)"
    and name: "name = Join2 (Dir (get_filename e l))
                  (take (length ?fn - length (Ext ?fn)) ?fn @ ''-'' @ middle @ Ext ?fn)"
    by (elim exE conjE)
  have "\<forall>x\<in>set middle. \<not> IsPathSeparator x"
    using timestamp_of_no_sep [OF ts] mid by (rule middle_no_sep)
  from backup_Base_differs [OF this refl refl refl, of "get_filename e l"]
  have differs: "Base name \<noteq> ?fn" unfolding name .
  from mid have "name = candidate_name e l ts \<or> (\<exists>n. name = alternate_name e l ts n)"
  proof
    assume "middle = ts"
    then show ?thesis
      unfolding name by (simp add: candidate_name_def backup_name_def Let_def)
  next
    assume "\<exists>j. middle = ts @ ''_'' @ digits j"
    then obtain j where "middle = ts @ ''_'' @ digits j" ..
    then have "name = alternate_name e l ts j"
      unfolding name by (simp add: alternate_name_def indexed_name_def Let_def)
    then show ?thesis by blast
  qed
  with ts differs show ?thesis by blast
qed

theorem processName_not_destination_witness:
  "processName test_env test_logger empty_world fakeCurrentTime 4
     = Some (Inr ''/d/foobar-20091117_200000.log'')
   \<and> ''/d/foobar-20091117_200000.log'' \<noteq> get_filename test_env test_logger
   \<and> Base ''/d/foobar-20091117_200000.log'' \<noteq> Base (get_filename test_env test_logger)
   \<and> candidate_name test_env test_logger ''20091117_200000'' = ''/d/foobar-20091117_200000.log''"
proof -
  have h: "processName test_env test_logger empty_world fakeCurrentTime 4
             = Some (Inr ''/d/foobar-20091117_200000.log'')"
    by code_simp
  have c: "candidate_name test_env test_logger ''20091117_200000''
             = ''/d/foobar-20091117_200000.log''"
    by code_simp
  from processName_not_destination [OF h] h c show ?thesis by blast
qed

text \<open>
  Claim C9. When the configured basic-authentication list is empty, \<^verbatim>\<open>authen\<close> returns
  true for every username and password, and the handler built by
  \<^verbatim>\<open>ValidateMiddleware\<close> hands every request to the next handler, with no header added
  and no credential looked at.
\<close>

theorem empty_authen_list_bypasses:
  "authen md5 [] username password
   \<and> ValidateMiddleware md5 [] next current w r = Forward (next w r)"
  by (simp add: authen_def ValidateMiddleware_def)

text \<open>
  Claim C10. \<^verbatim>\<open>SanitizeFilename\<close> is idempotent, and its output contains none of the
  reserved characters (backslash, slash, question mark, percent, asterisk, colon, pipe,
  double quote, angle brackets, space), which are the eleven members of
  \<open>reserved_chars\<close>.
\<close>

theorem SanitizeFilename_idempotent_clean:
  "SanitizeFilename (SanitizeFilename s) = SanitizeFilename s
   \<and> set (SanitizeFilename s) \<inter> set reserved_chars = {}"
  using SanitizeFilename_twice SanitizeFilename_no_reserved by blast


end
